theory Spec2Isabelle
  imports Complex_Main "HOL-Library.Word" "HOL-Library.Signed_Division"
begin

unbundle bit_operations_syntax

section \<open>Delay generator (stealth/timing.go, navigation/patterns.go)\<close>

text \<open>
  Go's \<open>int\<close> and \<open>time.Duration\<close> (an \<open>int64\<close> of nanoseconds) are 64-bit two's
  complement on the platforms the tool targets: \<open>+\<close>, \<open>-\<close> and \<open>*\<close> wrap silently.
\<close>

type_synonym go_int = "64 word"

text \<open>
  \<open>(*rand.Rand).Intn(n)\<close> panics with "invalid argument to Intn" when \<open>n \<le> 0\<close> and
  otherwise returns some value of \<open>[0, n)\<close>. The value drawn is decided by the generator's
  seed (here \<open>time.Now().UnixNano()\<close>); the model takes the draw as a natural number and
  reduces it into the range, so that every value of \<open>[0, n)\<close> is reachable.
\<close>

definition Intn :: "nat \<Rightarrow> go_int \<Rightarrow> string + go_int" where
  "Intn draw n =
     (if sint n \<le> 0 then Inl ''invalid argument to Intn''
      else Inr (word_of_nat (draw mod nat (sint n))))"

text \<open>\<open>stealth.RandomDelay\<close>; \<open>Inl\<close> is a panic, \<open>Inr\<close> the duration in nanoseconds.\<close>

definition Millisecond :: go_int where
  "Millisecond = 1000000"

definition RandomDelay :: "nat \<Rightarrow> go_int \<Rightarrow> go_int \<Rightarrow> string + go_int" where
  "RandomDelay draw minMs0 maxMs0 =
     (let minMs = (if minMs0 <s 0 then 0 else minMs0);
          maxMs = (if maxMs0 <s minMs then minMs else maxMs0)
      in case Intn draw (maxMs - minMs + 1) of
           Inl p \<Rightarrow> Inl p
         | Inr k \<Rightarrow> Inr ((k + minMs) * Millisecond))"

text \<open>
  \<open>navigation.RandomDelay\<close> draws from the clock instead: \<open>nanos\<close> is
  \<open>time.Now().UnixNano()\<close>, and Go's \<open>%\<close> truncates towards zero (\<open>smod\<close> on the signed
  values). A zero divisor would panic.
\<close>

definition go_rem :: "go_int \<Rightarrow> go_int \<Rightarrow> string + go_int" where
  "go_rem a b =
     (if b = 0 then Inl ''integer divide by zero''
      else Inr (word_of_int (sint a smod sint b)))"

definition nav_RandomDelay :: "go_int \<Rightarrow> go_int \<Rightarrow> go_int \<Rightarrow> string + go_int" where
  "nav_RandomDelay nanos minMs0 maxMs0 =
     (let minMs = (if minMs0 <s 0 then 0 else minMs0);
          maxMs = (if maxMs0 <s minMs then minMs else maxMs0)
      in case go_rem nanos (maxMs - minMs + 1) of
           Inl p \<Rightarrow> Inl p
         | Inr k \<Rightarrow> Inr ((minMs + k) * Millisecond))"

section \<open>Strings (packages strings and fmt)\<close>

text \<open>Go strings are byte strings; \<open>strings.HasPrefix\<close> and \<open>strings.Contains\<close>.\<close>

fun HasPrefix :: "string \<Rightarrow> string \<Rightarrow> bool" where
  "HasPrefix s [] = True"
| "HasPrefix [] (p # ps) = False"
| "HasPrefix (c # cs) (p # ps) = (c = p \<and> HasPrefix cs ps)"

fun Contains :: "string \<Rightarrow> string \<Rightarrow> bool" where
  "Contains [] substr = (substr = [])"
| "Contains (c # cs) substr = (HasPrefix (c # cs) substr \<or> Contains cs substr)"

text \<open>\<open>strings.ToLower\<close> on the ASCII letters (other bytes are kept).\<close>

definition lower_char :: "char \<Rightarrow> char" where
  "lower_char c =
     (case map_of (zip ''ABCDEFGHIJKLMNOPQRSTUVWXYZ'' ''abcdefghijklmnopqrstuvwxyz'') c of
        Some l \<Rightarrow> l
      | None \<Rightarrow> c)"

definition ToLower :: "string \<Rightarrow> string" where
  "ToLower s = map lower_char s"

text \<open>The verb \<open>%d\<close> of \<open>fmt\<close>: decimal digits, with a minus sign below zero.\<close>

fun itoa_nat :: "nat \<Rightarrow> string" where
  "itoa_nat n =
     (if n < 10 then [''0123456789'' ! n]
      else itoa_nat (n div 10) @ [''0123456789'' ! (n mod 10)])"

declare itoa_nat.simps [simp del]

definition Itoa :: "int \<Rightarrow> string" where
  "Itoa i = (if i < 0 then CHR ''-'' # itoa_nat (nat (- i)) else itoa_nat (nat i))"

text \<open>\<open>fmt.Errorf("<msg>: %w", err)\<close>; an error is modelled by its message \<open>err.Error()\<close>.\<close>

definition wrap :: "string \<Rightarrow> string \<Rightarrow> string" where
  "wrap msg e = msg @ '': '' @ e"

section \<open>The automation context (go-rod), as the workflows use it\<close>

text \<open>
  An element handle answers \<open>Text()\<close> (\<open>Inl\<close> an error), \<open>Attribute(name)\<close>
  (\<open>Inr None\<close> when the attribute is absent) and \<open>Click("left", 1)\<close> (the error, if any).
\<close>

record Element =
  Text :: "string + string"
  Attribute :: "string \<Rightarrow> string + string option"
  Click :: "string option"

text \<open>
  What the browser shows for one profile URL: the results of \<open>Navigate\<close> and \<open>WaitLoad\<close>,
  the answer of \<open>page.Timeout(d).Element(sel)\<close> on the loaded profile (\<open>None\<close> when it
  returns an error) and the same once the Connect button has been clicked. The note
  dialogue typed by \<open>addPersonalizedNote\<close> is represented by its result \<open>AddNote\<close>, the
  message dialogue of \<open>sendFollowUpMessage\<close> by its result \<open>FollowUp\<close>.
  Sleeps, scrolling and mouse motion whose errors the workflows only log are left out.
\<close>

record Page =
  Navigate :: "string option"
  WaitLoad :: "string option"
  ElementOnProfile :: "string \<Rightarrow> Element option"
  ElementAfterClick :: "string \<Rightarrow> Element option"
  AddNote :: "string option"
  FollowUp :: "string option"

section \<open>The state store (package storage)\<close>

text \<open>
  The store keeps bytes under string keys. What matters of the bytes is what
  \<open>json.Unmarshal\<close> makes of them: a document, nothing (zero bytes) or a parse error.
  \<open>Load\<close> answers \<open>ErrNotFound\<close> for a missing key; a store that cannot be read or
  written (\<open>NoopStore\<close>, a failing disk) answers with some other error.

  A save that fails may still have altered what is stored: \<open>FileStore.Save\<close> ends in
  \<open>os.WriteFile\<close>, which truncates the file before it writes. \<open>save_damage\<close> is what a
  failing \<open>Save\<close> leaves under the key: \<open>None\<close> when the stored bytes are untouched
  (\<open>NoopStore\<close>, a directory that cannot be created), \<open>Some NoBytes\<close> after a truncation,
  \<open>Some Corrupt\<close> after a partial write.
\<close>

datatype 'd blob = Doc 'd | NoBytes | Corrupt

datatype store_error = ErrNotFound | StoreFault string

record 'd StateStore =
  blobs :: "string \<rightharpoonup> 'd blob"
  load_fault :: "string option"
  save_fault :: "string option"
  save_damage :: "'d blob option"

definition Load :: "'d StateStore \<Rightarrow> string \<Rightarrow> store_error + 'd blob" where
  "Load st key =
     (case load_fault st of
        Some e \<Rightarrow> Inl (StoreFault e)
      | None \<Rightarrow> (case blobs st key of None \<Rightarrow> Inl ErrNotFound | Some b \<Rightarrow> Inr b))"

definition Save :: "'d StateStore \<Rightarrow> string \<Rightarrow> 'd blob \<Rightarrow> string option \<times> 'd StateStore" where
  "Save st key data =
     (case save_fault st of
        Some e \<Rightarrow>
          (Some e,
           case save_damage st of
             None \<Rightarrow> st
           | Some left \<Rightarrow> st\<lparr>blobs := (blobs st)(key \<mapsto> left)\<rparr>)
      | None \<Rightarrow> (None, st\<lparr>blobs := (blobs st)(key \<mapsto> data)\<rparr>))"

text \<open>
  The clock and the browser, as one run sees them: the calendar day
  \<open>time.Now().Format("2006-01-02")\<close>, the RFC 3339 time stamp taken while the target at
  index \<open>i\<close> is processed, and the page each profile URL leads to.
\<close>

record World =
  web :: "string \<Rightarrow> Page"
  today :: string
  now :: "nat \<Rightarrow> string"

text \<open>The loops "for each selector, if Element(sel) succeeds return true".\<close>

fun any_element :: "(string \<Rightarrow> Element option) \<Rightarrow> string list \<Rightarrow> bool" where
  "any_element look [] = False"
| "any_element look (sel # sels) =
     (case look sel of Some el \<Rightarrow> True | None \<Rightarrow> any_element look sels)"

section \<open>Follow-up messages (messaging/followup.go)\<close>

record MessageRecord =
  ProfileURL :: string
  Timestamp :: string
  MessageSent :: string
  Success :: bool

record MessageState =
  Date :: string
  MessagesSentToday :: int
  MessagedProfiles :: "string \<rightharpoonup> MessageRecord"

record FollowUpConfig =
  MaxPerDay :: int
  MessageTemplate :: string
  WaitBetweenMessages :: int
  Context :: string

definition stateKeyMessageState :: string where
  "stateKeyMessageState = ''message_state''"

definition newMessageState :: "string \<Rightarrow> MessageState" where
  "newMessageState day = \<lparr>Date = day, MessagesSentToday = 0, MessagedProfiles = Map.empty\<rparr>"

definition loadMessageState :: "MessageState StateStore \<Rightarrow> string \<Rightarrow> string + MessageState" where
  "loadMessageState store0 day =
     (case Load store0 stateKeyMessageState of
        Inl e \<Rightarrow>
          Inl (wrap ''load state''
                 (case e of ErrNotFound \<Rightarrow> ''state not found'' | StoreFault m \<Rightarrow> m))
      | Inr data \<Rightarrow>
          (case data of
             NoBytes \<Rightarrow> Inr (newMessageState day)
           | Corrupt \<Rightarrow> Inl ''unmarshal state''
           | Doc st \<Rightarrow> Inr st))"

definition saveMessageState ::
  "MessageState StateStore \<Rightarrow> MessageState \<Rightarrow> string option \<times> MessageState StateStore" where
  "saveMessageState store0 st =
     (case Save store0 stateKeyMessageState (Doc st) of
        (Some e, store') \<Rightarrow> (Some (wrap ''save state'' e), store')
      | (None, store') \<Rightarrow> (None, store'))"

definition messageButtonSelectors :: "string list" where
  "messageButtonSelectors =
     [''button[aria-label*='Message']'', ''a[aria-label*='Message']'',
      ''button:has-text('Message')'', ''a:has-text('Message')'',
      ''button.pvs-profile-actions__action:has-text('Message')'',
      ''div.pvs-profile-actions button:has-text('Message')'']"

definition notConnectedSelectors :: "string list" where
  "notConnectedSelectors =
     [''button:has-text('Connect')'', ''button:has-text('Pending')'',
      ''button:has-text('Follow')'']"

text \<open>The errors of \<open>Text\<close> and \<open>Attribute\<close> are dropped here: the empty text, no label.\<close>

definition is_message_button :: "Element \<Rightarrow> bool" where
  "is_message_button elem =
     (let text = (case Text elem of Inr t \<Rightarrow> t | Inl e \<Rightarrow> []);
          ariaLabel = (case Attribute elem ''aria-label'' of Inr a \<Rightarrow> a | Inl e \<Rightarrow> None)
      in Contains (ToLower text) ''message'' \<or>
         (case ariaLabel of Some l \<Rightarrow> Contains (ToLower l) ''message'' | None \<Rightarrow> False))"

fun find_message_button :: "Page \<Rightarrow> string list \<Rightarrow> bool" where
  "find_message_button page [] = False"
| "find_message_button page (sel # sels) =
     (case ElementOnProfile page sel of
        None \<Rightarrow> find_message_button page sels
      | Some elem \<Rightarrow>
          if is_message_button elem then True else find_message_button page sels)"

definition checkIfConnected :: "Page \<Rightarrow> string + bool" where
  "checkIfConnected page =
     (case Navigate page of
        Some e \<Rightarrow> Inl (wrap ''navigate to profile'' e)
      | None \<Rightarrow>
     (case WaitLoad page of
        Some e \<Rightarrow> Inl (wrap ''wait for profile load'' e)
      | None \<Rightarrow>
     if find_message_button page messageButtonSelectors then Inr True
     else if any_element (ElementOnProfile page) notConnectedSelectors then Inr False
     else Inr False))"

text \<open>
  The variables of \<open>SendFollowUps\<close>, and the profile URLs handed to
  \<open>sendFollowUpMessage\<close>, in order.
\<close>

record FollowUpRun =
  state :: MessageState
  store :: "MessageState StateStore"
  successCount :: nat
  skipCount :: nat
  notConnectedCount :: nat
  errorCount :: nat
  invoked :: "string list"

text \<open>Lines 161 to 195: one message, its bookkeeping and the save whose error is logged.\<close>

definition message :: "World \<Rightarrow> FollowUpConfig \<Rightarrow> nat \<Rightarrow> string \<Rightarrow> FollowUpRun \<Rightarrow> FollowUpRun" where
  "message w cfg i profileURL r =
     (let err = FollowUp (web w profileURL);
          r1 = (case err of
                  Some e \<Rightarrow>
                    r\<lparr>state := (state r)\<lparr>MessagedProfiles := (MessagedProfiles (state r))
                          (profileURL \<mapsto> \<lparr>ProfileURL = profileURL, Timestamp = now w i,
                                            MessageSent = [], Success = False\<rparr>)\<rparr>,
                      errorCount := errorCount r + 1\<rparr>
                | None \<Rightarrow>
                    r\<lparr>state := (state r)\<lparr>MessagesSentToday := MessagesSentToday (state r) + 1,
                          MessagedProfiles := (MessagedProfiles (state r))
                          (profileURL \<mapsto> \<lparr>ProfileURL = profileURL, Timestamp = now w i,
                                            MessageSent = MessageTemplate cfg, Success = True\<rparr>)\<rparr>,
                      successCount := successCount r + 1\<rparr>);
          saved = saveMessageState (store r1) (state r1)
      in r1\<lparr>store := snd saved, invoked := invoked r @ [profileURL]\<rparr>)"

fun followups_loop ::
  "World \<Rightarrow> FollowUpConfig \<Rightarrow> nat \<Rightarrow> string list \<Rightarrow> FollowUpRun \<Rightarrow> FollowUpRun" where
  "followups_loop w cfg i [] r = r"
| "followups_loop w cfg i (profileURL # rest) r =
     (if MessagesSentToday (state r) \<ge> MaxPerDay cfg then r
      else if (case MessagedProfiles (state r) profileURL of
                 Some rcd \<Rightarrow> Success rcd
               | None \<Rightarrow> False) then
        followups_loop w cfg (i + 1) rest (r\<lparr>skipCount := skipCount r + 1\<rparr>)
      else
        (case checkIfConnected (web w profileURL) of
           Inl e \<Rightarrow> followups_loop w cfg (i + 1) rest (r\<lparr>errorCount := errorCount r + 1\<rparr>)
         | Inr isConnected \<Rightarrow>
             if \<not> isConnected then
               followups_loop w cfg (i + 1) rest (r\<lparr>notConnectedCount := notConnectedCount r + 1\<rparr>)
             else followups_loop w cfg (i + 1) rest (message w cfg i profileURL r)))"

definition message_entry_state :: "MessageState StateStore \<Rightarrow> string \<Rightarrow> MessageState" where
  "message_entry_state store0 day =
     (let st = (case loadMessageState store0 day of
                  Inl e \<Rightarrow> newMessageState day
                | Inr loaded \<Rightarrow> loaded)
      in if Date st \<noteq> day then st\<lparr>Date := day, MessagesSentToday := 0\<rparr> else st)"

definition message_limit_reached :: "int \<Rightarrow> int \<Rightarrow> string" where
  "message_limit_reached sent limit =
     ''daily message limit reached: '' @ Itoa sent @ ''/'' @ Itoa limit"

definition SendFollowUps ::
  "World \<Rightarrow> string list \<Rightarrow> MessageState StateStore \<Rightarrow> FollowUpConfig
     \<Rightarrow> string option \<times> FollowUpRun option" where
  "SendFollowUps w profiles store0 cfg =
     (if profiles = [] then (None, None)
      else
        let r0 = \<lparr>state = message_entry_state store0 (today w), store = store0,
                  successCount = 0, skipCount = 0, notConnectedCount = 0, errorCount = 0,
                  invoked = []\<rparr>
        in if MessagesSentToday (state r0) \<ge> MaxPerDay cfg then
             (Some (message_limit_reached (MessagesSentToday (state r0)) (MaxPerDay cfg)), Some r0)
           else (None, Some (followups_loop w cfg 0 profiles r0)))"

section \<open>Connection requests (connect/request.go)\<close>

subsection \<open>One request\<close>

definition profileSelectors :: "string list" where
  "profileSelectors =
     [''div.pv-top-card'', ''section.artdeco-card'', ''h1.text-heading-xlarge'',
      ''div.ph5.pb5'', ''main.scaffold-layout__main'']"

definition isProfileAvailable :: "Page \<Rightarrow> bool" where
  "isProfileAvailable page = any_element (ElementOnProfile page) profileSelectors"

definition connectSelectors :: "string list" where
  "connectSelectors =
     [''button[aria-label*='Invite'][aria-label*='connect']'',
      ''button[aria-label^='Invite']'',
      ''button:has-text('Connect')'',
      ''button.pvs-profile-actions__action:has-text('Connect')'',
      ''button.artdeco-button--secondary:has-text('Connect')'',
      ''button.pvs-profile-actions__action'',
      ''button[aria-label*='Connect']'']"

definition unavailableReasons :: "(string \<times> string) list" where
  "unavailableReasons =
     [(''button:has-text('Following')'', ''already following''),
      (''button:has-text('Pending')'', ''connection request already pending''),
      (''button:has-text('Message')'', ''already connected''),
      (''span:has-text('Connection')'', ''already connected'')]"

text \<open>The semantic check of a structural match: visible text first, then the label.\<close>

definition text_has_connect :: "Element \<Rightarrow> bool" where
  "text_has_connect btn =
     (case Text btn of Inr text \<Rightarrow> Contains (ToLower text) ''connect'' | Inl e \<Rightarrow> False)"

definition label_has_connect :: "Element \<Rightarrow> bool" where
  "label_has_connect btn =
     (case Attribute btn ''aria-label'' of
        Inr (Some ariaLabel) \<Rightarrow> Contains (ToLower ariaLabel) ''connect''
      | Inr None \<Rightarrow> False
      | Inl e \<Rightarrow> False)"

fun try_connect_selectors :: "Page \<Rightarrow> string list \<Rightarrow> Element option" where
  "try_connect_selectors page [] = None"
| "try_connect_selectors page (sel # sels) =
     (case ElementOnProfile page sel of
        None \<Rightarrow> try_connect_selectors page sels
      | Some btn \<Rightarrow>
          if text_has_connect btn then Some btn
          else if label_has_connect btn then Some btn
          else try_connect_selectors page sels)"

fun check_unavailable :: "Page \<Rightarrow> (string \<times> string) list \<Rightarrow> string option" where
  "check_unavailable page [] = None"
| "check_unavailable page ((selector, reason) # checks) =
     (case ElementOnProfile page selector of
        Some el \<Rightarrow> Some reason
      | None \<Rightarrow> check_unavailable page checks)"

definition connect_not_found :: string where
  "connect_not_found =
     ''connect button not found - may already be connected or profile restricted''"

definition findConnectButton :: "Page \<Rightarrow> string + Element" where
  "findConnectButton page =
     (case try_connect_selectors page connectSelectors of
        Some btn \<Rightarrow> Inr btn
      | None \<Rightarrow>
          (case check_unavailable page unavailableReasons of
             Some reason \<Rightarrow> Inl (''connect unavailable: '' @ reason)
           | None \<Rightarrow> Inl connect_not_found))"

definition modalSelectors :: "string list" where
  "modalSelectors =
     [''div[role='dialog'][aria-labelledby*='send-invite']'', ''div.send-invite'',
      ''button[aria-label*='Add a note']'', ''button:has-text('Add a note')'',
      ''textarea[name='message']'']"

definition hasNoteModal :: "Page \<Rightarrow> bool" where
  "hasNoteModal page = any_element (ElementAfterClick page) modalSelectors"

definition sendSelectors :: "string list" where
  "sendSelectors =
     [''button[aria-label*='Send without a note']'',
      ''button:has-text('Send without a note')'',
      ''button[aria-label*='Send now']'',
      ''button:has-text('Send')'',
      ''button.artdeco-button--primary'']"

fun click_first :: "(string \<Rightarrow> Element option) \<Rightarrow> string list \<Rightarrow> string option" where
  "click_first look [] = Some ''send button not found''"
| "click_first look (sel # sels) =
     (case look sel of
        None \<Rightarrow> click_first look sels
      | Some btn \<Rightarrow>
          (case Click btn of Some e \<Rightarrow> click_first look sels | None \<Rightarrow> None))"

definition clickSendWithoutNote :: "Page \<Rightarrow> string option" where
  "clickSendWithoutNote page = click_first (ElementAfterClick page) sendSelectors"

record RequestConfig =
  MaxPerDay :: int
  UsePersonalizedNotes :: bool
  NoteTemplate :: string
  WaitBetweenRequests :: int

text \<open>\<open>sendConnectionRequest\<close>: \<open>None\<close> is the nil error.\<close>

definition send_without_note :: "Page \<Rightarrow> string option" where
  "send_without_note page =
     (case clickSendWithoutNote page of
        Some e \<Rightarrow> Some (wrap ''send connection'' e)
      | None \<Rightarrow> None)"

definition sendConnectionRequest :: "Page \<Rightarrow> RequestConfig \<Rightarrow> string option" where
  "sendConnectionRequest page reqCfg =
     (case Navigate page of
        Some e \<Rightarrow> Some (wrap ''navigate to profile'' e)
      | None \<Rightarrow>
     (case WaitLoad page of
        Some e \<Rightarrow> Some (wrap ''wait for profile load'' e)
      | None \<Rightarrow>
     if \<not> isProfileAvailable page then Some ''profile unavailable or private''
     else
     (case findConnectButton page of
        Inl e \<Rightarrow> Some (wrap ''find connect button'' e)
      | Inr connectBtn \<Rightarrow>
     (case Click connectBtn of
        Some e \<Rightarrow> Some (wrap ''click connect button'' e)
      | None \<Rightarrow>
     if hasNoteModal page then
       if UsePersonalizedNotes reqCfg \<and> NoteTemplate reqCfg \<noteq> [] then
         (case AddNote page of
            Some e \<Rightarrow> send_without_note page
          | None \<Rightarrow> None)
       else send_without_note page
     else None))))"

subsection \<open>State and its persistence\<close>

text \<open>
  A Go map read at a missing key gives the zero value: \<open>state.AttemptedProfiles[url]\<close>
  is true exactly when the map holds \<open>true\<close> for \<open>url\<close>. \<open>RequestsSentToday\<close> is only
  incremented below \<open>MaxPerDay\<close>, so it cannot wrap and is an \<open>int\<close> here.
\<close>

record ConnectionState =
  Date :: string
  RequestsSentToday :: int
  AttemptedProfiles :: "string \<rightharpoonup> bool"
  SuccessfulSends :: "string \<rightharpoonup> string"
  FailedAttempts :: "string \<rightharpoonup> string"

definition stateKeyConnectionState :: string where
  "stateKeyConnectionState = ''connection_state''"

definition newConnectionState :: "string \<Rightarrow> ConnectionState" where
  "newConnectionState day =
     \<lparr>Date = day, RequestsSentToday = 0, AttemptedProfiles = Map.empty,
      SuccessfulSends = Map.empty, FailedAttempts = Map.empty\<rparr>"

definition loadConnectionState ::
  "ConnectionState StateStore \<Rightarrow> string \<Rightarrow> store_error + ConnectionState" where
  "loadConnectionState store0 day =
     (case Load store0 stateKeyConnectionState of
        Inl e \<Rightarrow> (if e = ErrNotFound then Inr (newConnectionState day) else Inl e)
      | Inr data \<Rightarrow>
          (case data of
             Doc st \<Rightarrow> Inr st
           | NoBytes \<Rightarrow> Inr (newConnectionState day)
           | Corrupt \<Rightarrow> Inr (newConnectionState day)))"

definition saveConnectionState ::
  "ConnectionState StateStore \<Rightarrow> ConnectionState \<Rightarrow> string option \<times> ConnectionState StateStore" where
  "saveConnectionState store0 st =
     (case Save store0 stateKeyConnectionState (Doc st) of
        (Some e, store') \<Rightarrow> (Some (wrap ''save connection state'' e), store')
      | (None, store') \<Rightarrow> (None, store'))"

subsection \<open>The campaign loop\<close>

text \<open>
  The variables of \<open>SendRequests\<close> while it runs: the state record, the store, the three
  counters it logs, and (for the properties) the profile URLs handed to
  \<open>sendConnectionRequest\<close>, in order.
\<close>

record Run =
  state :: ConnectionState
  store :: "ConnectionState StateStore"
  successCount :: nat
  skipCount :: nat
  errorCount :: nat
  invoked :: "string list"

text \<open>Lines 116 to 144: one attempt, its bookkeeping and the save whose error is logged.\<close>

definition attempt :: "World \<Rightarrow> RequestConfig \<Rightarrow> nat \<Rightarrow> string \<Rightarrow> Run \<Rightarrow> Run" where
  "attempt w reqCfg i profileURL r =
     (let err = sendConnectionRequest (web w profileURL) reqCfg;
          st = (state r)\<lparr>AttemptedProfiles := (AttemptedProfiles (state r))(profileURL \<mapsto> True)\<rparr>;
          r1 = (case err of
                  Some e \<Rightarrow>
                    r\<lparr>state := st\<lparr>FailedAttempts := (FailedAttempts st)(profileURL \<mapsto> e)\<rparr>,
                      errorCount := errorCount r + 1\<rparr>
                | None \<Rightarrow>
                    r\<lparr>state := st\<lparr>RequestsSentToday := RequestsSentToday st + 1,
                                   SuccessfulSends := (SuccessfulSends st)(profileURL \<mapsto> now w i)\<rparr>,
                      successCount := successCount r + 1\<rparr>);
          saved = saveConnectionState (store r1) (state r1)
      in r1\<lparr>store := snd saved, invoked := invoked r @ [profileURL]\<rparr>)"

text \<open>
  The \<open>for i, profileURL := range profiles\<close> loop: \<open>break\<close> at the quota, \<open>continue\<close>
  on a profile already attempted.
\<close>

fun requests_loop :: "World \<Rightarrow> RequestConfig \<Rightarrow> nat \<Rightarrow> string list \<Rightarrow> Run \<Rightarrow> Run" where
  "requests_loop w reqCfg i [] r = r"
| "requests_loop w reqCfg i (profileURL # rest) r =
     (if RequestsSentToday (state r) \<ge> MaxPerDay reqCfg then r
      else if AttemptedProfiles (state r) profileURL = Some True then
        requests_loop w reqCfg (i + 1) rest (r\<lparr>skipCount := skipCount r + 1\<rparr>)
      else requests_loop w reqCfg (i + 1) rest (attempt w reqCfg i profileURL r))"

text \<open>Lines 62 to 75: load the state (fresh when loading fails) and roll the day over.\<close>

definition entry_state :: "ConnectionState StateStore \<Rightarrow> string \<Rightarrow> ConnectionState" where
  "entry_state store0 day =
     (let st = (case loadConnectionState store0 day of
                  Inl e \<Rightarrow> newConnectionState day
                | Inr loaded \<Rightarrow> loaded)
      in if Date st \<noteq> day then st\<lparr>Date := day, RequestsSentToday := 0\<rparr> else st)"

definition limit_reached :: "int \<Rightarrow> int \<Rightarrow> string" where
  "limit_reached sent limit =
     ''daily connection limit reached: '' @ Itoa sent @ ''/'' @ Itoa limit"

text \<open>
  \<open>SendRequests\<close> returns its error (\<open>None\<close> is nil) and, unless it returned before
  loading the state, the variables it ended with.
\<close>

definition SendRequests ::
  "World \<Rightarrow> string list \<Rightarrow> ConnectionState StateStore \<Rightarrow> RequestConfig
     \<Rightarrow> string option \<times> Run option" where
  "SendRequests w profiles store0 reqCfg =
     (if profiles = [] then (None, None)
      else
        let r0 = \<lparr>state = entry_state store0 (today w), store = store0,
                  successCount = 0, skipCount = 0, errorCount = 0, invoked = []\<rparr>
        in if RequestsSentToday (state r0) \<ge> MaxPerDay reqCfg then
             (Some (limit_reached (RequestsSentToday (state r0)) (MaxPerDay reqCfg)), Some r0)
           else (None, Some (requests_loop w reqCfg 0 profiles r0)))"

section \<open>People search (search package, FindPeople)\<close>

record SearchParams =
  Keywords :: string
  JobTitle :: string
  Company :: string
  Location :: string
  MaxPages :: int

text \<open>
  One page of search results: what \<open>extractProfileURLs\<close> returns on it (an error when no
  profile link is found) and the answer of \<open>page.Timeout(d).Element(sel)\<close>.
\<close>

record ResultsPage =
  Extracted :: "string + string list"
  ElementOnResults :: "string \<Rightarrow> Element option"

text \<open>
  The browser during a search: the error, if any, of opening the search (typing into the
  search box, else navigating to the search URL), the results page shown as page number
  \<open>k\<close>, and \<open>normalizeProfileURL\<close>, which rests on \<open>net/url\<close> and is taken as given.
\<close>

record SearchWorld =
  OpenSearch :: "string option"
  results :: "int \<Rightarrow> ResultsPage"
  normalizeProfileURL :: "string \<Rightarrow> string"

definition nextButtonSelectors :: "string list" where
  "nextButtonSelectors =
     [''button[aria-label='Next']'', ''button.artdeco-pagination__button--next'',
      ''li.artdeco-pagination__indicator--number:not(.selected) + li button'',
      ''button[data-test-pagination-page-btn='next']'']"

definition is_disabled :: "Element \<Rightarrow> bool" where
  "is_disabled el =
     (let disabled = (case Attribute el ''disabled'' of Inr a \<Rightarrow> a | Inl e \<Rightarrow> None);
          ariaDisabled = (case Attribute el ''aria-disabled'' of Inr a \<Rightarrow> a | Inl e \<Rightarrow> None)
      in disabled \<noteq> None \<or> (case ariaDisabled of Some v \<Rightarrow> v = ''true'' | None \<Rightarrow> False))"

fun has_next :: "(string \<Rightarrow> Element option) \<Rightarrow> string list \<Rightarrow> bool" where
  "has_next look [] = False"
| "has_next look (sel # sels) =
     (case look sel of
        None \<Rightarrow> has_next look sels
      | Some el \<Rightarrow> if is_disabled el then False else True)"

text \<open>\<open>hasNextPage\<close> never returns an error; \<open>FindPeople\<close> checks for one all the same.\<close>

definition hasNextPage :: "ResultsPage \<Rightarrow> string + bool" where
  "hasNextPage page = Inr (has_next (ElementOnResults page) nextButtonSelectors)"

definition clickSelectors :: "string list" where
  "clickSelectors =
     [''button[aria-label='Next']'', ''button.artdeco-pagination__button--next'',
      ''button[data-test-pagination-page-btn='next']'']"

fun click_next :: "(string \<Rightarrow> Element option) \<Rightarrow> string list \<Rightarrow> string option" where
  "click_next look [] = Some ''could not find or click next page button''"
| "click_next look (sel # sels) =
     (case look sel of
        None \<Rightarrow> click_next look sels
      | Some el \<Rightarrow>
          (case Click el of Some e \<Rightarrow> click_next look sels | None \<Rightarrow> None))"

definition clickNextPage :: "ResultsPage \<Rightarrow> string option" where
  "clickNextPage page = click_next (ElementOnResults page) clickSelectors"

text \<open>
  The variables of \<open>FindPeople\<close>: the seen set, the profiles collected, the page counter,
  and (for the properties) the page numbers processed, the \<open>newCount\<close> logged for each,
  and the error returned, if any.
\<close>

record Search =
  seenProfiles :: "string \<rightharpoonup> bool"
  allProfiles :: "string list"
  currentPage :: int
  processed :: "int list"
  newCounts :: "nat list"
  failure :: "string option"

text \<open>Lines 297 to 312: normalise, skip what was seen, collect and count the rest.\<close>

fun collect ::
  "(string \<Rightarrow> string) \<Rightarrow> string list \<Rightarrow> (string \<rightharpoonup> bool) \<times> string list \<times> nat
     \<Rightarrow> (string \<rightharpoonup> bool) \<times> string list \<times> nat" where
  "collect normalise [] acc = acc"
| "collect normalise (profileURL # rest) (seen, allp, newCount) =
     (let normalized = normalise profileURL
      in if normalized = [] then collect normalise rest (seen, allp, newCount)
         else if seen normalized = Some True then collect normalise rest (seen, allp, newCount)
         else collect normalise rest (seen(normalized \<mapsto> True), allp @ [normalized], newCount + 1))"

definition page_done :: "Search \<Rightarrow> (string \<rightharpoonup> bool) \<times> string list \<times> nat \<Rightarrow> Search" where
  "page_done s acc =
     s\<lparr>seenProfiles := fst acc, allProfiles := fst (snd acc),
       processed := processed s @ [currentPage s],
       newCounts := newCounts s @ [snd (snd acc)]\<rparr>"

function pages_loop :: "SearchWorld \<Rightarrow> int \<Rightarrow> Search \<Rightarrow> Search" where
  "pages_loop w maxPages s =
     (if currentPage s \<le> maxPages then
        (case Extracted (results w (currentPage s)) of
           Inl e \<Rightarrow>
             s\<lparr>processed := processed s @ [currentPage s],
               failure := Some (''extract profiles on page '' @ Itoa (currentPage s) @ '': '' @ e)\<rparr>
         | Inr profiles \<Rightarrow>
             (let s1 = page_done s (collect (normalizeProfileURL w) profiles
                                      (seenProfiles s, allProfiles s, 0))
              in case hasNextPage (results w (currentPage s)) of
                   Inl e \<Rightarrow> s1
                 | Inr hasNext \<Rightarrow>
                     if \<not> hasNext then s1
                     else (case clickNextPage (results w (currentPage s)) of
                             Some e \<Rightarrow> s1
                           | None \<Rightarrow> pages_loop w maxPages (s1\<lparr>currentPage := currentPage s + 1\<rparr>))))
      else s)"
  by pat_completeness auto
termination
  by (relation "measure (\<lambda>(w, maxPages, s). nat (maxPages + 1 - currentPage s))")
     (auto simp: page_done_def)

declare pages_loop.simps [simp del]

definition stateKeySeenProfiles :: string where
  "stateKeySeenProfiles = ''seen_profiles''"

text \<open>The stored document is a JSON array of URLs, read back as the set of its members.\<close>

definition loadSeenProfiles :: "string set StateStore \<Rightarrow> store_error + (string \<rightharpoonup> bool)" where
  "loadSeenProfiles store0 =
     (case Load store0 stateKeySeenProfiles of
        Inl e \<Rightarrow> (if e = ErrNotFound then Inr Map.empty else Inl e)
      | Inr data \<Rightarrow>
          (case data of
             Doc urls \<Rightarrow> Inr (\<lambda>url. if url \<in> urls then Some True else None)
           | NoBytes \<Rightarrow> Inr Map.empty
           | Corrupt \<Rightarrow> Inr Map.empty))"

definition saveSeenProfiles ::
  "string set StateStore \<Rightarrow> (string \<rightharpoonup> bool) \<Rightarrow> string option \<times> string set StateStore" where
  "saveSeenProfiles store0 seen =
     (case Save store0 stateKeySeenProfiles (Doc (dom seen)) of
        (Some e, store') \<Rightarrow> (Some (wrap ''save to state'' e), store')
      | (None, store') \<Rightarrow> (None, store'))"

definition FindPeople ::
  "SearchWorld \<Rightarrow> string set StateStore \<Rightarrow> SearchParams \<Rightarrow> Search \<times> string set StateStore" where
  "FindPeople w store0 params =
     (let seen0 = (case loadSeenProfiles store0 of Inl e \<Rightarrow> Map.empty | Inr seen \<Rightarrow> seen);
          s0 = \<lparr>seenProfiles = seen0, allProfiles = [], currentPage = 1, processed = [],
                newCounts = [], failure = None\<rparr>
      in case OpenSearch w of
           Some e \<Rightarrow> (s0\<lparr>failure := Some e\<rparr>, store0)
         | None \<Rightarrow>
             (let maxPages = (if MaxPages params = 0 then 10 else MaxPages params);
                  s = pages_loop w maxPages s0
              in case failure s of
                   Some e \<Rightarrow> (s, store0)
                 | None \<Rightarrow> (s, snd (saveSeenProfiles store0 (seenProfiles s)))))"

text \<open>What the Go function returns: \<open>(nil, err)\<close> or \<open>(allProfiles, nil)\<close>.\<close>

definition returned :: "Search \<Rightarrow> string + string list" where
  "returned s = (case failure s of Some e \<Rightarrow> Inl e | None \<Rightarrow> Inr (allProfiles s))"

section \<open>Pointer motion (stealth/mouse.go)\<close>

text \<open>
  \<open>float64\<close> is idealised as \<open>real\<close>; the integers converted to it are exact. The draws
  \<open>r.Float64()\<close> of the generator, each in \<open>[0, 1)\<close>, are the sequence \<open>u 0\<close>, \<open>u 1\<close>, ...
  in the order the function makes them. \<open>int(x)\<close> truncates towards zero.
\<close>

definition randRange :: "real \<Rightarrow> real \<Rightarrow> real \<Rightarrow> real" where
  "randRange draw lo hi = (if hi < lo then hi + draw * (lo - hi) else lo + draw * (hi - lo))"

definition cubicBezier :: "real \<Rightarrow> real \<Rightarrow> real \<Rightarrow> real \<Rightarrow> real \<Rightarrow> real" where
  "cubicBezier p0 p1 p2 p3 t =
     (let u = 1 - t
      in u * u * u * p0 + 3 * u * u * t * p1 + 3 * u * t * t * p2 + t * t * t * p3)"

definition truncate :: "real \<Rightarrow> int" where
  "truncate x = (if 0 \<le> x then \<lfloor>x\<rfloor> else \<lceil>x\<rceil>)"

text \<open>
  \<open>MoveMouseHuman\<close>: the positions handed to the mouse, in order, when the driver accepts
  each of them: either the single direct move, or the sampled curve followed by the final
  \<open>MoveTo\<close>.
\<close>

definition MoveMouseHuman :: "(nat \<Rightarrow> real) \<Rightarrow> int \<Rightarrow> int \<Rightarrow> int \<Rightarrow> int \<Rightarrow> (real \<times> real) list" where
  "MoveMouseHuman u fromX fromY toX toY =
     (let dx = real_of_int (toX - fromX);
          dy = real_of_int (toY - fromY);
          dist = sqrt (dx * dx + dy * dy)
      in if dist < 2 then [(real_of_int toX, real_of_int toY)]
         else
           let steps0 = truncate (dist / 8) + 20;
               steps1 = (if steps0 < 25 then 25 else steps0);
               steps = (if steps1 > 220 then 220 else steps1);
               cp1x = real_of_int fromX + dx * 0.3 + randRange (u 0) (- dist * 0.1) (dist * 0.1);
               cp1y = real_of_int fromY + dy * 0.3 + randRange (u 1) (- dist * 0.1) (dist * 0.1);
               cp2x = real_of_int fromX + dx * 0.7 + randRange (u 2) (- dist * 0.1) (dist * 0.1);
               cp2y = real_of_int fromY + dy * 0.7 + randRange (u 3) (- dist * 0.1) (dist * 0.1);
               overshoot = (u 4 < 0.22);
               toX1 = (if overshoot then toX + truncate (randRange (u 5) (- 8) 14) else toX);
               toY1 = (if overshoot then toY + truncate (randRange (u 6) (- 8) 14) else toY);
               drawn = (if overshoot then 7 else 5);
               points =
                 map (\<lambda>i. let t = real_of_int i / real_of_int steps
                          in (cubicBezier (real_of_int fromX) cp1x cp2x (real_of_int toX1) t
                                + randRange (u (drawn + 2 * nat (i - 1))) (- 3) 3,
                              cubicBezier (real_of_int fromY) cp1y cp2y (real_of_int toY1) t
                                + randRange (u (drawn + 2 * nat (i - 1) + 1)) (- 3) 3))
                     [1..steps]
           in points @ [(real_of_int toX1, real_of_int toY1)])"

section \<open>Notions used by the properties\<close>

text \<open>The attempted set of a state, and the invariant tying \<open>succeeded\<close> to it.\<close>

definition attempted :: "ConnectionState \<Rightarrow> string set" where
  "attempted st = {p. AttemptedProfiles st p = Some True}"

definition succeeded_attempted :: "ConnectionState \<Rightarrow> bool" where
  "succeeded_attempted st = (dom (SuccessfulSends st) \<subseteq> attempted st)"

text \<open>The variables \<open>SendRequests\<close> and \<open>SendFollowUps\<close> enter their loops with.\<close>

definition start :: "ConnectionState StateStore \<Rightarrow> string \<Rightarrow> Run" where
  "start store0 day = \<lparr>state = entry_state store0 day, store = store0,
                  successCount = 0, skipCount = 0, errorCount = 0, invoked = []\<rparr>"

definition message_start :: "MessageState StateStore \<Rightarrow> string \<Rightarrow> FollowUpRun" where
  "message_start store0 day =
     \<lparr>FollowUpRun.state = message_entry_state store0 day, store = store0,
      successCount = 0, skipCount = 0, notConnectedCount = 0, errorCount = 0, invoked = []\<rparr>"

text \<open>The store holds the state in memory under the workflow's key.\<close>

definition synced :: "Run \<Rightarrow> bool" where
  "synced r = (blobs (store r) stateKeyConnectionState = Some (Doc (state r)))"

text \<open>Everything a run computes apart from the store.\<close>

definition progress :: "Run \<Rightarrow> ConnectionState \<times> nat \<times> nat \<times> nat \<times> string list" where
  "progress r = (state r, successCount r, skipCount r, errorCount r, invoked r)"

definition message_progress ::
  "FollowUpRun \<Rightarrow> MessageState \<times> nat \<times> nat \<times> nat \<times> nat \<times> string list" where
  "message_progress r =
     (FollowUpRun.state r, FollowUpRun.successCount r, FollowUpRun.skipCount r,
      FollowUpRun.notConnectedCount r, FollowUpRun.errorCount r, FollowUpRun.invoked r)"

text \<open>
  Page \<open>k\<close> lets the pagination go on: extraction succeeded, a next control that is not
  disabled resolves, and clicking it succeeds. \<open>next_state\<close> is the loop's state after
  such a page.
\<close>

definition continues :: "SearchWorld \<Rightarrow> int \<Rightarrow> bool" where
  "continues w k =
     (case Extracted (results w k) of
        Inl e \<Rightarrow> False
      | Inr profiles \<Rightarrow>
          hasNextPage (results w k) = Inr True \<and> clickNextPage (results w k) = None)"

definition next_state :: "SearchWorld \<Rightarrow> Search \<Rightarrow> Search" where
  "next_state w s =
     (case Extracted (results w (currentPage s)) of
        Inl e \<Rightarrow> s
      | Inr profiles \<Rightarrow>
          (page_done s (collect (normalizeProfileURL w) profiles
                          (seenProfiles s, allProfiles s, 0)))
          \<lparr>currentPage := currentPage s + 1\<rparr>)"

section \<open>Example inputs\<close>

text \<open>
  A profile page with a Connect button and no note dialogue, one that shows a Pending
  control instead, and a world where the profile \<open>P\<close> is pending and all others can be
  connected with.
\<close>

definition connect_button :: Element where
  "connect_button = \<lparr>Text = Inr ''Connect'', Attribute = (\<lambda>name. Inr None), Click = None\<rparr>"

definition name_heading :: Element where
  "name_heading = \<lparr>Text = Inr ''Ada Lovelace'', Attribute = (\<lambda>name. Inr None), Click = None\<rparr>"

definition pending_button :: Element where
  "pending_button = \<lparr>Text = Inr ''Pending'', Attribute = (\<lambda>name. Inr None), Click = None\<rparr>"

definition connectable :: Page where
  "connectable =
     \<lparr>Navigate = None, WaitLoad = None,
      ElementOnProfile = [''h1.text-heading-xlarge'' \<mapsto> name_heading,
                          ''button[aria-label^='Invite']'' \<mapsto> connect_button],
      ElementAfterClick = Map.empty, AddNote = None, FollowUp = None\<rparr>"

definition pending :: Page where
  "pending =
     \<lparr>Navigate = None, WaitLoad = None,
      ElementOnProfile = [''h1.text-heading-xlarge'' \<mapsto> name_heading,
                          ''button:has-text('Pending')'' \<mapsto> pending_button],
      ElementAfterClick = Map.empty, AddNote = None, FollowUp = None\<rparr>"

definition example_world :: World where
  "example_world =
     \<lparr>web = (\<lambda>url. if url = ''P'' then pending else connectable),
      today = ''2025-01-15'', now = (\<lambda>i. ''2025-01-15T10:00:00Z'')\<rparr>"

definition example_cfg :: RequestConfig where
  "example_cfg = \<lparr>MaxPerDay = 2, UsePersonalizedNotes = False, NoteTemplate = [],
                   WaitBetweenRequests = 8000\<rparr>"

definition example_mcfg :: FollowUpConfig where
  "example_mcfg = \<lparr>FollowUpConfig.MaxPerDay = 2, MessageTemplate = ''Hi {{name}}'',
                   WaitBetweenMessages = 15000, Context = []\<rparr>"

definition empty_store :: "'d StateStore" where
  "empty_store = \<lparr>blobs = Map.empty, load_fault = None, save_fault = None,
      save_damage = None\<rparr>"

text \<open>A store whose failing saves truncate what is stored.\<close>

definition truncating_store :: "'d StateStore" where
  "truncating_store =
     \<lparr>blobs = Map.empty, load_fault = None, save_fault = None, save_damage = Some NoBytes\<rparr>"

text \<open>A stored state that has used up a quota of two today.\<close>

definition exhausted_state :: ConnectionState where
  "exhausted_state =
     \<lparr>Date = ''2025-01-15'', RequestsSentToday = 2,
      AttemptedProfiles = [''X'' \<mapsto> True, ''Y'' \<mapsto> True],
      SuccessfulSends = [''X'' \<mapsto> ''2025-01-15T09:00:00Z'', ''Y'' \<mapsto> ''2025-01-15T09:01:00Z''],
      FailedAttempts = Map.empty\<rparr>"

definition exhausted_store :: "ConnectionState StateStore" where
  "exhausted_store =
     \<lparr>blobs = [''connection_state'' \<mapsto> Doc exhausted_state], load_fault = None, save_fault = None,
      save_damage = None\<rparr>"

definition exhausted_messages :: "MessageState StateStore" where
  "exhausted_messages =
     \<lparr>blobs = [''message_state'' \<mapsto>
                 Doc \<lparr>MessageState.Date = ''2025-01-15'', MessagesSentToday = 2, MessagedProfiles = Map.empty\<rparr>],
      load_fault = None, save_fault = None,
      save_damage = None\<rparr>"

text \<open>The state and the store after connecting with \<open>A\<close> and \<open>B\<close> from nothing.\<close>

definition after_two :: ConnectionState where
  "after_two =
     \<lparr>Date = ''2025-01-15'', RequestsSentToday = 2,
      AttemptedProfiles = [''A'' \<mapsto> True, ''B'' \<mapsto> True],
      SuccessfulSends = [''A'' \<mapsto> ''2025-01-15T10:00:00Z'', ''B'' \<mapsto> ''2025-01-15T10:00:00Z''],
      FailedAttempts = Map.empty\<rparr>"

definition after_two_store :: "ConnectionState StateStore" where
  "after_two_store =
     \<lparr>blobs = [''connection_state'' \<mapsto> Doc after_two], load_fault = None, save_fault = None,
      save_damage = None\<rparr>"

text \<open>
  A profile page of an accepted connection, a world where every profile is one, and the
  state after messaging \<open>A\<close> and \<open>B\<close> from nothing.
\<close>

definition message_button :: Element where
  "message_button = \<lparr>Text = Inr ''Message'', Attribute = (\<lambda>name. Inr None), Click = None\<rparr>"

definition connected :: Page where
  "connected =
     \<lparr>Navigate = None, WaitLoad = None,
      ElementOnProfile = [''button:has-text('Message')'' \<mapsto> message_button],
      ElementAfterClick = Map.empty, AddNote = None, FollowUp = None\<rparr>"

definition message_world :: World where
  "message_world =
     \<lparr>web = (\<lambda>url. connected), today = ''2025-01-15'',
      now = (\<lambda>i. ''2025-01-15T10:00:00Z'')\<rparr>"

definition after_two_messages :: MessageState where
  "after_two_messages =
     \<lparr>MessageState.Date = ''2025-01-15'', MessagesSentToday = 2,
      MessagedProfiles =
        [''A'' \<mapsto> \<lparr>ProfileURL = ''A'', Timestamp = ''2025-01-15T10:00:00Z'',
                    MessageSent = ''Hi {{name}}'', Success = True\<rparr>,
         ''B'' \<mapsto> \<lparr>ProfileURL = ''B'', Timestamp = ''2025-01-15T10:00:00Z'',
                    MessageSent = ''Hi {{name}}'', Success = True\<rparr>]\<rparr>"

text \<open>
  Search results: a page with a Next button, a last page, a world of two pages, a world
  where every page has a Next button, and a store that has seen the first profile.
\<close>

definition next_button :: Element where
  "next_button = \<lparr>Text = Inr ''Next'', Attribute = (\<lambda>name. Inr None), Click = None\<rparr>"

definition page_with_next :: "string list \<Rightarrow> ResultsPage" where
  "page_with_next urls =
     \<lparr>Extracted = Inr urls, ElementOnResults = [''button[aria-label='Next']'' \<mapsto> next_button]\<rparr>"

definition last_page :: "string list \<Rightarrow> ResultsPage" where
  "last_page urls = \<lparr>Extracted = Inr urls, ElementOnResults = Map.empty\<rparr>"

definition search_world :: SearchWorld where
  "search_world =
     \<lparr>OpenSearch = None,
      results = (\<lambda>k. if k = 1 then page_with_next [''https://www.linkedin.com/in/ada'']
                     else last_page [''https://www.linkedin.com/in/bob'']),
      normalizeProfileURL = (\<lambda>url. url)\<rparr>"

definition endless_world :: SearchWorld where
  "endless_world =
     \<lparr>OpenSearch = None,
      results = (\<lambda>k. page_with_next [''https://www.linkedin.com/in/ada'']),
      normalizeProfileURL = (\<lambda>url. url)\<rparr>"

definition seen_store :: "string set StateStore" where
  "seen_store =
     \<lparr>blobs = [''seen_profiles'' \<mapsto> Doc {''https://www.linkedin.com/in/ada''}],
      load_fault = None, save_fault = None,
      save_damage = None\<rparr>"

definition default_params :: SearchParams where
  "default_params = \<lparr>Keywords = ''engineer'', JobTitle = [], Company = [], Location = [],
                      MaxPages = 0\<rparr>"

text \<open>Random draws that trigger the overshoot (\<open>u 4 < 0.22\<close>) with offsets of 3 pixels.\<close>

definition overshooting :: "nat \<Rightarrow> real" where
  "overshooting n = (if n = 4 then 0 else 1 / 2)"

section \<open>Properties of the delay generator\<close>

text \<open>Signed arithmetic on 64-bit words agrees with the integers while nothing wraps.\<close>

lemma sint_add_small:
  fixes a b :: go_int
  shows "- (2 ^ 63) \<le> sint a + sint b \<Longrightarrow> sint a + sint b < 2 ^ 63 \<Longrightarrow>
         sint (a + b) = sint a + sint b"
  by (simp add: sint_word_add signed_take_bit_int_eq_self)

lemma sint_diff_small:
  fixes a b :: go_int
  shows "- (2 ^ 63) \<le> sint a - sint b \<Longrightarrow> sint a - sint b < 2 ^ 63 \<Longrightarrow>
         sint (a - b) = sint a - sint b"
  by (simp add: sint_word_diff signed_take_bit_int_eq_self)

lemma sint_mult_small:
  fixes a b :: go_int
  shows "- (2 ^ 63) \<le> sint a * sint b \<Longrightarrow> sint a * sint b < 2 ^ 63 \<Longrightarrow>
         sint (a * b) = sint a * sint b"
  by (simp add: sint_word_mult signed_take_bit_int_eq_self)

lemma sint_of_nat_small: "int k < 2 ^ 63 \<Longrightarrow> sint (word_of_nat k :: go_int) = int k"
proof -
  assume k: "int k < 2 ^ 63"
  have "sint (word_of_nat k :: go_int) = sint (word_of_int (int k) :: go_int)" by simp
  also have "\<dots> = signed_take_bit 63 (int k)" by (subst sint_sbintrunc') simp
  also have "\<dots> = int k" using k by (simp add: signed_take_bit_int_eq_self)
  finally show ?thesis .
qed

text \<open>
  With the clamped bounds \<open>lo = max 0 minMs\<close> and \<open>up = max lo maxMs\<close> in milliseconds,
  and \<open>up\<close> small enough for its nanoseconds to fit 64 bits, \<open>RandomDelay\<close> does not
  panic and returns a duration between \<open>lo\<close> and \<open>up\<close> milliseconds.
\<close>

lemma RandomDelay_in_bounds:
  fixes minMs maxMs :: go_int
  defines "lo \<equiv> max 0 (sint minMs)"
  defines "up \<equiv> max lo (sint maxMs)"
  assumes upb: "up \<le> 9223372036854"
  shows "\<exists>d. RandomDelay draw minMs maxMs = Inr d \<and>
           lo * 1000000 \<le> sint d \<and> sint d \<le> up * 1000000"
proof -
  define a :: go_int where "a = (if minMs <s 0 then 0 else minMs)"
  define b :: go_int where "b = (if maxMs <s a then a else maxMs)"
  have sa: "sint a = lo" by (simp add: a_def lo_def word_sless_alt max_def)
  have sb: "sint b = up" by (auto simp: b_def up_def sa word_sless_alt max_def)
  have lo0: "0 \<le> lo" by (simp add: lo_def)
  have le: "lo \<le> up" by (simp add: up_def)
  have d: "sint (b - a) = up - lo"
    using lo0 le upb by (simp add: sint_diff_small sa sb)
  have span: "sint (b - a + 1) = up - lo + 1"
    using lo0 le upb by (simp add: sint_add_small d)
  define k where "k = draw mod nat (up - lo + 1)"
  have "k < nat (up - lo + 1)" unfolding k_def using le by simp
  then have kb: "int k \<le> up - lo" by linarith
  have sk: "sint (word_of_nat k :: go_int) = int k"
    using kb lo0 upb by (simp add: sint_of_nat_small)
  have ska: "sint (word_of_nat k + a) = int k + lo"
    using kb lo0 upb by (simp add: sint_add_small sk sa)
  have sm: "sint Millisecond = 1000000" by (simp add: Millisecond_def)
  have res: "sint ((word_of_nat k + a) * Millisecond) = (int k + lo) * 1000000"
    using kb lo0 upb by (simp add: sint_mult_small ska sm)
  have run: "RandomDelay draw minMs maxMs = Inr ((word_of_nat k + a) * Millisecond)"
    using le span by (simp add: RandomDelay_def Intn_def Let_def a_def [symmetric] b_def [symmetric] k_def)
  show ?thesis using run res kb by simp
qed

text \<open>
  C8. The claim: for all integers the generator returns a duration inside the (clamped)
  bounds and never panics. At \<open>minMs = 0\<close>, \<open>maxMs = MaxInt64\<close> the span
  \<open>maxMs - minMs + 1\<close> wraps around to \<open>MinInt64\<close>, and \<open>Intn\<close> panics whatever the draw.
\<close>

theorem RandomDelay_MaxInt64_panics:
  "RandomDelay draw 0 0x7FFFFFFFFFFFFFFF = Inl ''invalid argument to Intn''"
  by (simp add: RandomDelay_def Intn_def Let_def word_sless_alt)

section \<open>Properties of the pointer path\<close>

text \<open>The path is never empty, and a move to the point the pointer is at is direct.\<close>

lemma MoveMouseHuman_nonempty: "MoveMouseHuman u fromX fromY toX toY \<noteq> []"
  by (simp add: MoveMouseHuman_def Let_def)

lemma MoveMouseHuman_same_point: "MoveMouseHuman u x y x y = [(real_of_int x, real_of_int y)]"
  by (simp add: MoveMouseHuman_def Let_def)

text \<open>
  The last position is the target unless the overshoot was drawn: the overshoot is added
  to \<open>toX\<close> and \<open>toY\<close> themselves, so the final \<open>MoveTo\<close> goes to the overshot point.
\<close>

lemma MoveMouseHuman_last:
  "last (MoveMouseHuman u fromX fromY toX toY) =
     (if sqrt (real_of_int (toX - fromX) * real_of_int (toX - fromX) +
               real_of_int (toY - fromY) * real_of_int (toY - fromY)) < 2 \<or> \<not> u 4 < 0.22
      then (real_of_int toX, real_of_int toY)
      else (real_of_int (toX + truncate (randRange (u 5) (- 8) 14)),
            real_of_int (toY + truncate (randRange (u 6) (- 8) 14))))"
  by (simp add: MoveMouseHuman_def Let_def)

text \<open>
  C7. The claim: the final emitted position is exactly the requested target, also after an
  overshoot. Moving from \<open>(0, 0)\<close> to \<open>(30, 40)\<close> with the overshoot drawn and offsets of
  3 pixels, the path ends at \<open>(33, 43)\<close>.
\<close>

theorem overshoot_moves_final_point:
  "last (MoveMouseHuman overshooting 0 0 30 40) = (33, 43) \<and>
   last (MoveMouseHuman overshooting 0 0 30 40) \<noteq> (30, 40)"
  by (simp add: MoveMouseHuman_last overshooting_def randRange_def truncate_def)

section \<open>Properties of the connection campaign\<close>

subsection \<open>What one attempt changes\<close>

lemma attempt_invoked [simp]: "invoked (attempt w cfg i p r) = invoked r @ [p]"
  by (simp add: attempt_def Let_def split: option.splits)

lemma attempt_skipCount [simp]: "skipCount (attempt w cfg i p r) = skipCount r"
  by (simp add: attempt_def Let_def split: option.splits)

lemma attempt_AttemptedProfiles [simp]:
  "AttemptedProfiles (state (attempt w cfg i p r)) = (AttemptedProfiles (state r))(p \<mapsto> True)"
  by (simp add: attempt_def Let_def split: option.splits)

lemma attempt_Date [simp]: "Date (state (attempt w cfg i p r)) = Date (state r)"
  by (simp add: attempt_def Let_def split: option.splits)

lemma attempt_SuccessfulSends:
  "SuccessfulSends (state (attempt w cfg i p r)) =
     (case sendConnectionRequest (web w p) cfg of
        None \<Rightarrow> (SuccessfulSends (state r))(p \<mapsto> now w i)
      | Some e \<Rightarrow> SuccessfulSends (state r))"
  by (simp add: attempt_def Let_def split: option.splits)

lemma attempt_FailedAttempts:
  "FailedAttempts (state (attempt w cfg i p r)) =
     (case sendConnectionRequest (web w p) cfg of
        None \<Rightarrow> FailedAttempts (state r)
      | Some e \<Rightarrow> (FailedAttempts (state r))(p \<mapsto> e))"
  by (simp add: attempt_def Let_def split: option.splits)

lemma attempt_RequestsSentToday:
  "RequestsSentToday (state (attempt w cfg i p r)) =
     (case sendConnectionRequest (web w p) cfg of
        None \<Rightarrow> RequestsSentToday (state r) + 1
      | Some e \<Rightarrow> RequestsSentToday (state r))"
  by (simp add: attempt_def Let_def split: option.splits)

lemma attempt_successCount:
  "successCount (attempt w cfg i p r) =
     (case sendConnectionRequest (web w p) cfg of
        None \<Rightarrow> successCount r + 1
      | Some e \<Rightarrow> successCount r)"
  by (simp add: attempt_def Let_def split: option.splits)

lemma attempt_errorCount:
  "errorCount (attempt w cfg i p r) =
     (case sendConnectionRequest (web w p) cfg of
        None \<Rightarrow> errorCount r
      | Some e \<Rightarrow> errorCount r + 1)"
  by (simp add: attempt_def Let_def split: option.splits)

lemma attempt_store:
  "store (attempt w cfg i p r) = snd (saveConnectionState (store r) (state (attempt w cfg i p r)))"
  by (simp add: attempt_def Let_def split: option.splits)

lemma attempted_attempt [simp]: "attempted (state (attempt w cfg i p r)) = insert p (attempted (state r))"
  by (auto simp: attempted_def)

lemma attempted_skip [simp]: "attempted (state (r\<lparr>skipCount := k\<rparr>)) = attempted (state r)"
  by (simp add: attempted_def)

lemma attempt_faults [simp]:
  "save_fault (store (attempt w cfg i p r)) = save_fault (store r)"
  "load_fault (store (attempt w cfg i p r)) = load_fault (store r)"
  by (simp_all add: attempt_def Let_def saveConnectionState_def Save_def split: option.splits)

lemma attempt_synced: "save_fault (store r) = None \<Longrightarrow> synced (attempt w cfg i p r)"
  by (simp add: synced_def attempt_def Let_def saveConnectionState_def Save_def split: option.splits)

lemma attempt_invariant:
  "succeeded_attempted (state r) \<Longrightarrow> succeeded_attempted (state (attempt w cfg i p r))"
  by (auto simp: succeeded_attempted_def attempt_SuccessfulSends split: option.splits)

lemma attempt_progress:
  "progress r = progress r' \<Longrightarrow> progress (attempt w cfg i p r) = progress (attempt w cfg i p r')"
  by (simp add: progress_def attempt_def Let_def split: option.splits)

subsection \<open>What the loop changes\<close>

lemma loop_calls:
  "\<exists>calls. invoked (requests_loop w cfg i ps r) = invoked r @ calls \<and> distinct calls \<and>
     set calls \<inter> attempted (state r) = {} \<and>
     attempted (state (requests_loop w cfg i ps r)) = attempted (state r) \<union> set calls"
proof (induction ps arbitrary: r i)
  case Nil
  show ?case by simp
next
  case (Cons p ps)
  show ?case
  proof (cases "RequestsSentToday (state r) \<ge> MaxPerDay cfg")
    case True
    then show ?thesis by simp
  next
    case below: False
    show ?thesis
    proof (cases "AttemptedProfiles (state r) p = Some True")
      case True
      with below Cons.IH [of "i + 1" "r\<lparr>skipCount := skipCount r + 1\<rparr>"] show ?thesis
        by simp
    next
      case False
      then have notin: "p \<notin> attempted (state r)" by (simp add: attempted_def)
      from Cons.IH [of "i + 1" "attempt w cfg i p r"] obtain calls where
        c: "invoked (requests_loop w cfg (i + 1) ps (attempt w cfg i p r)) = (invoked r @ [p]) @ calls"
           "distinct calls" "set calls \<inter> insert p (attempted (state r)) = {}"
           "attempted (state (requests_loop w cfg (i + 1) ps (attempt w cfg i p r))) =
              insert p (attempted (state r)) \<union> set calls"
        by auto
      have "invoked (requests_loop w cfg i (p # ps) r) = invoked r @ (p # calls)"
        using below False c(1) by simp
      moreover have "distinct (p # calls)" using c(2,3) by auto
      moreover have "set (p # calls) \<inter> attempted (state r) = {}" using c(3) notin by auto
      moreover have "attempted (state (requests_loop w cfg i (p # ps) r)) =
          attempted (state r) \<union> set (p # calls)"
        using below False c(4) by simp
      ultimately show ?thesis by blast
    qed
  qed
qed

lemma loop_calls_map:
  "\<exists>calls. invoked (requests_loop w cfg i ps r) = invoked r @ calls \<and>
     (\<forall>q. q \<notin> set calls \<longrightarrow>
        AttemptedProfiles (state (requests_loop w cfg i ps r)) q = AttemptedProfiles (state r) q)"
proof (induction ps arbitrary: r i)
  case Nil
  show ?case by simp
next
  case (Cons p ps)
  show ?case
  proof (cases "RequestsSentToday (state r) \<ge> MaxPerDay cfg")
    case True
    then show ?thesis by simp
  next
    case below: False
    show ?thesis
    proof (cases "AttemptedProfiles (state r) p = Some True")
      case True
      with below Cons.IH [of "i + 1" "r\<lparr>skipCount := skipCount r + 1\<rparr>"] show ?thesis
        by simp
    next
      case False
      from Cons.IH [of "i + 1" "attempt w cfg i p r"] obtain calls where
        c: "invoked (requests_loop w cfg (i + 1) ps (attempt w cfg i p r)) = (invoked r @ [p]) @ calls"
           "\<forall>q. q \<notin> set calls \<longrightarrow>
              AttemptedProfiles (state (requests_loop w cfg (i + 1) ps (attempt w cfg i p r))) q =
              ((AttemptedProfiles (state r))(p \<mapsto> True)) q"
        by auto
      have "invoked (requests_loop w cfg i (p # ps) r) = invoked r @ (p # calls)"
        using below False c(1) by simp
      moreover have "\<forall>q. q \<notin> set (p # calls) \<longrightarrow>
          AttemptedProfiles (state (requests_loop w cfg i (p # ps) r)) q = AttemptedProfiles (state r) q"
        using below False c(2) by auto
      ultimately show ?thesis by blast
    qed
  qed
qed

lemma loop_succeeded_kept:
  "p \<in> attempted (state r) \<Longrightarrow>
     SuccessfulSends (state (requests_loop w cfg i ps r)) p = SuccessfulSends (state r) p"
proof (induction ps arbitrary: r i)
  case Nil
  show ?case by simp
next
  case (Cons q ps)
  show ?case
  proof (cases "RequestsSentToday (state r) \<ge> MaxPerDay cfg")
    case True
    then show ?thesis by simp
  next
    case below: False
    show ?thesis
    proof (cases "AttemptedProfiles (state r) q = Some True")
      case True
      with below Cons.IH [of "r\<lparr>skipCount := skipCount r + 1\<rparr>" "i + 1"] Cons.prems show ?thesis
        by simp
    next
      case False
      with Cons.prems have ne: "q \<noteq> p" by (auto simp: attempted_def)
      have "p \<in> attempted (state (attempt w cfg i q r))" using Cons.prems by simp
      from Cons.IH [OF this, of "i + 1"] below False ne show ?thesis
        by (simp add: attempt_SuccessfulSends split: option.splits)
    qed
  qed
qed

lemma loop_invariant:
  "succeeded_attempted (state r) \<Longrightarrow> succeeded_attempted (state (requests_loop w cfg i ps r))"
proof (induction ps arbitrary: r i)
  case Nil
  then show ?case by simp
next
  case (Cons p ps)
  have skip: "succeeded_attempted (state (r\<lparr>skipCount := skipCount r + 1\<rparr>))"
    using Cons.prems by (simp add: succeeded_attempted_def)
  show ?case
    using Cons.IH [OF skip] Cons.IH [OF attempt_invariant [OF Cons.prems]] Cons.prems
    by simp
qed

lemma loop_all_succeed:
  assumes "\<forall>p\<in>set ps. sendConnectionRequest (web w p) cfg = None"
    and "distinct ps"
    and "\<forall>p\<in>set ps. AttemptedProfiles (state r) p \<noteq> Some True"
  shows "invoked (requests_loop w cfg i ps r) =
           invoked r @ take (nat (MaxPerDay cfg - RequestsSentToday (state r))) ps \<and>
         RequestsSentToday (state (requests_loop w cfg i ps r)) =
           RequestsSentToday (state r) +
             int (min (length ps) (nat (MaxPerDay cfg - RequestsSentToday (state r)))) \<and>
         successCount (requests_loop w cfg i ps r) =
           successCount r + min (length ps) (nat (MaxPerDay cfg - RequestsSentToday (state r))) \<and>
         errorCount (requests_loop w cfg i ps r) = errorCount r \<and>
         skipCount (requests_loop w cfg i ps r) = skipCount r \<and>
         FailedAttempts (state (requests_loop w cfg i ps r)) = FailedAttempts (state r) \<and>
         dom (SuccessfulSends (state (requests_loop w cfg i ps r))) =
           dom (SuccessfulSends (state r)) \<union>
             set (take (nat (MaxPerDay cfg - RequestsSentToday (state r))) ps)"
  using assms
proof (induction ps arbitrary: r i)
  case Nil
  show ?case by simp
next
  case (Cons p ps)
  show ?case
  proof (cases "RequestsSentToday (state r) \<ge> MaxPerDay cfg")
    case True
    then show ?thesis by simp
  next
    case below: False
    let ?r1 = "attempt w cfg i p r"
    have ok: "sendConnectionRequest (web w p) cfg = None" using Cons.prems(1) by simp
    have fresh: "AttemptedProfiles (state r) p \<noteq> Some True" using Cons.prems(3) by simp
    have cnt: "RequestsSentToday (state ?r1) = RequestsSentToday (state r) + 1"
      by (simp add: attempt_RequestsSentToday ok)
    have a: "\<forall>q\<in>set ps. sendConnectionRequest (web w q) cfg = None" using Cons.prems(1) by simp
    have b: "distinct ps" using Cons.prems(2) by simp
    have c: "\<forall>q\<in>set ps. AttemptedProfiles (state ?r1) q \<noteq> Some True"
      using Cons.prems(2,3) by auto
    note IH = Cons.IH [OF a b c, of "i + 1"]
    have k: "nat (MaxPerDay cfg - RequestsSentToday (state r)) =
             Suc (nat (MaxPerDay cfg - (RequestsSentToday (state r) + 1)))"
      using below by simp
    have loop: "requests_loop w cfg i (p # ps) r = requests_loop w cfg (i + 1) ps ?r1"
      using below fresh by simp
    show ?thesis
      unfolding loop k using IH
      by (auto simp: cnt attempt_successCount attempt_errorCount attempt_FailedAttempts
          attempt_SuccessfulSends ok)
  qed
qed

lemma loop_faults:
  "save_fault (store (requests_loop w cfg i ps r)) = save_fault (store r) \<and>
   load_fault (store (requests_loop w cfg i ps r)) = load_fault (store r)"
  by (induction ps arbitrary: r i) auto

lemma loop_Date: "Date (state (requests_loop w cfg i ps r)) = Date (state r)"
  by (induction ps arbitrary: r i) auto

lemma synced_skip: "synced (r\<lparr>skipCount := k\<rparr>) = synced r"
  by (simp add: synced_def)

lemma loop_synced_or_same:
  "save_fault (store r) = None \<Longrightarrow>
     (state (requests_loop w cfg i ps r) = state r \<and> store (requests_loop w cfg i ps r) = store r)
     \<or> synced (requests_loop w cfg i ps r)"
proof (induction ps arbitrary: r i)
  case Nil
  show ?case by simp
next
  case (Cons p ps)
  show ?case
  proof (cases "RequestsSentToday (state r) \<ge> MaxPerDay cfg")
    case True
    then show ?thesis by simp
  next
    case below: False
    show ?thesis
    proof (cases "AttemptedProfiles (state r) p = Some True")
      case True
      with below Cons.IH [of "r\<lparr>skipCount := skipCount r + 1\<rparr>" "i + 1"] Cons.prems
      show ?thesis by simp
    next
      case False
      have s: "synced (attempt w cfg i p r)" using Cons.prems by (rule attempt_synced)
      have f: "save_fault (store (attempt w cfg i p r)) = None" using Cons.prems by simp
      from Cons.IH [OF f, of "i + 1"] s have "synced (requests_loop w cfg (i + 1) ps (attempt w cfg i p r))"
        by (auto simp: synced_def)
      with below False show ?thesis by simp
    qed
  qed
qed

lemma loop_attempted_mono: "attempted (state r) \<subseteq> attempted (state (requests_loop w cfg i ps r))"
  using loop_calls [of w cfg i ps r] by auto

lemma loop_all_attempted:
  "RequestsSentToday (state (requests_loop w cfg i ps r)) < MaxPerDay cfg \<Longrightarrow>
     set ps \<subseteq> attempted (state (requests_loop w cfg i ps r))"
proof (induction ps arbitrary: r i)
  case Nil
  show ?case by simp
next
  case (Cons p ps)
  show ?case
  proof (cases "RequestsSentToday (state r) \<ge> MaxPerDay cfg")
    case True
    with Cons.prems show ?thesis by simp
  next
    case below: False
    show ?thesis
    proof (cases "AttemptedProfiles (state r) p = Some True")
      case True
      let ?r1 = "r\<lparr>skipCount := skipCount r + 1\<rparr>"
      have eq: "requests_loop w cfg i (p # ps) r = requests_loop w cfg (i + 1) ps ?r1"
        using below True by simp
      have "p \<in> attempted (state ?r1)" using True by (simp add: attempted_def)
      then have "p \<in> attempted (state (requests_loop w cfg (i + 1) ps ?r1))"
        using loop_attempted_mono by blast
      moreover have "set ps \<subseteq> attempted (state (requests_loop w cfg (i + 1) ps ?r1))"
        using Cons.IH [of "i + 1" ?r1] Cons.prems eq by simp
      ultimately show ?thesis unfolding eq by simp
    next
      case False
      let ?r1 = "attempt w cfg i p r"
      have eq: "requests_loop w cfg i (p # ps) r = requests_loop w cfg (i + 1) ps ?r1"
        using below False by simp
      have "p \<in> attempted (state ?r1)" by simp
      then have "p \<in> attempted (state (requests_loop w cfg (i + 1) ps ?r1))"
        using loop_attempted_mono by blast
      moreover have "set ps \<subseteq> attempted (state (requests_loop w cfg (i + 1) ps ?r1))"
        using Cons.IH [of "i + 1" ?r1] Cons.prems eq by simp
      ultimately show ?thesis unfolding eq by simp
    qed
  qed
qed

lemma loop_all_skipped:
  "set ps \<subseteq> attempted (state r) \<Longrightarrow> RequestsSentToday (state r) < MaxPerDay cfg \<Longrightarrow>
     requests_loop w cfg i ps r = r\<lparr>skipCount := skipCount r + length ps\<rparr>"
  by (induction ps arbitrary: r i) (auto simp: attempted_def)

lemma loop_progress:
  "progress r = progress r' \<Longrightarrow>
     progress (requests_loop w cfg i ps r) = progress (requests_loop w cfg i ps r')"
proof (induction ps arbitrary: r r' i)
  case Nil
  then show ?case by simp
next
  case (Cons p ps)
  have st: "state r = state r'" using Cons.prems by (simp add: progress_def)
  have skip: "progress (r\<lparr>skipCount := skipCount r + 1\<rparr>) = progress (r'\<lparr>skipCount := skipCount r' + 1\<rparr>)"
    using Cons.prems by (simp add: progress_def)
  show ?case
    using Cons.IH [OF skip] Cons.IH [OF attempt_progress [OF Cons.prems]] Cons.prems st
    by simp
qed

subsection \<open>Entering the run\<close>

lemma entry_state_Date [simp]: "Date (entry_state s d) = d"
  by (simp add: entry_state_def Let_def)

lemma entry_state_Doc:
  "load_fault s = None \<Longrightarrow> blobs s stateKeyConnectionState = Some (Doc st) \<Longrightarrow> Date st = d \<Longrightarrow>
     entry_state s d = st"
  by (simp add: entry_state_def loadConnectionState_def Load_def Let_def)

lemma entry_state_save_fault [simp]: "entry_state (s\<lparr>save_fault := f\<rparr>) d = entry_state s d"
  by (simp add: entry_state_def loadConnectionState_def Load_def cong: option.case_cong)

lemma SendRequests_start:
  "SendRequests w ps s cfg =
     (if ps = [] then (None, None)
      else if RequestsSentToday (entry_state s (today w)) \<ge> MaxPerDay cfg then
        (Some (limit_reached (RequestsSentToday (entry_state s (today w))) (MaxPerDay cfg)),
         Some (start s (today w)))
      else (None, Some (requests_loop w cfg 0 ps (start s (today w)))))"
  by (simp add: SendRequests_def start_def Let_def)

lemma replay_entry:
  assumes lf: "load_fault s0 = None" and sf: "save_fault s0 = None"
    and run: "SendRequests w ps s0 cfg = (e1, Some r1)"
  shows "entry_state (store r1) (today w) = state r1 \<and> load_fault (store r1) = None \<and>
         (RequestsSentToday (state r1) < MaxPerDay cfg \<longrightarrow> set ps \<subseteq> attempted (state r1))"
proof (cases "RequestsSentToday (entry_state s0 (today w)) \<ge> MaxPerDay cfg")
  case True
  with run have "r1 = start s0 (today w)"
    by (auto simp: SendRequests_start split: if_splits)
  with True lf show ?thesis by (simp add: start_def)
next
  case False
  let ?r0 = "start s0 (today w)"
  from False run have r1: "r1 = requests_loop w cfg 0 ps ?r0"
    by (auto simp: SendRequests_start split: if_splits)
  have date: "Date (state r1) = today w" unfolding r1 by (simp add: loop_Date start_def)
  have faults: "load_fault (store r1) = None"
    unfolding r1 using loop_faults [of w cfg 0 ps ?r0] lf by (simp add: start_def)
  have "save_fault (store ?r0) = None" using sf by (simp add: start_def)
  from loop_synced_or_same [OF this, of w cfg 0 ps]
  have "(state r1 = state ?r0 \<and> store r1 = store ?r0) \<or> synced r1" unfolding r1 .
  then have "entry_state (store r1) (today w) = state r1"
  proof
    assume "state r1 = state ?r0 \<and> store r1 = store ?r0"
    then show ?thesis by (simp add: start_def)
  next
    assume "synced r1"
    then show ?thesis using faults date by (simp add: synced_def entry_state_Doc)
  qed
  moreover have "RequestsSentToday (state r1) < MaxPerDay cfg \<longrightarrow> set ps \<subseteq> attempted (state r1)"
    unfolding r1 using loop_all_attempted by blast
  ultimately show ?thesis using faults by simp
qed

subsection \<open>The follow-up loop and a failing store\<close>

lemma message_progress_step:
  "message_progress r = message_progress r' \<Longrightarrow>
     message_progress (message w cfg i p r) = message_progress (message w cfg i p r')"
  by (simp add: message_progress_def message_def Let_def split: option.splits)

lemma followups_progress:
  "message_progress r = message_progress r' \<Longrightarrow>
     message_progress (followups_loop w cfg i ps r) = message_progress (followups_loop w cfg i ps r')"
proof (induction ps arbitrary: r r' i)
  case Nil
  then show ?case by simp
next
  case (Cons p ps)
  have st: "FollowUpRun.state r = FollowUpRun.state r'" using Cons.prems by (simp add: message_progress_def)
  have skip: "message_progress (r\<lparr>FollowUpRun.skipCount := FollowUpRun.skipCount r + 1\<rparr>) =
              message_progress (r'\<lparr>FollowUpRun.skipCount := FollowUpRun.skipCount r' + 1\<rparr>)"
    using Cons.prems by (simp add: message_progress_def)
  have err: "message_progress (r\<lparr>FollowUpRun.errorCount := FollowUpRun.errorCount r + 1\<rparr>) =
              message_progress (r'\<lparr>FollowUpRun.errorCount := FollowUpRun.errorCount r' + 1\<rparr>)"
    using Cons.prems by (simp add: message_progress_def)
  have nc: "message_progress (r\<lparr>notConnectedCount := notConnectedCount r + 1\<rparr>) =
              message_progress (r'\<lparr>notConnectedCount := notConnectedCount r' + 1\<rparr>)"
    using Cons.prems by (simp add: message_progress_def)
  show ?case
    using Cons.IH [OF skip] Cons.IH [OF err] Cons.IH [OF nc]
      Cons.IH [OF message_progress_step [OF Cons.prems]] st Cons.prems
    by (simp split: sum.splits)
qed

lemma message_entry_state_save_fault [simp]:
  "message_entry_state (s\<lparr>save_fault := f\<rparr>) d = message_entry_state s d"
  by (simp add: message_entry_state_def loadMessageState_def Load_def cong: option.case_cong)

lemma SendFollowUps_start:
  "SendFollowUps w ps s cfg =
     (if ps = [] then (None, None)
      else if MessagesSentToday (message_entry_state s (today w)) \<ge> FollowUpConfig.MaxPerDay cfg then
        (Some (message_limit_reached (MessagesSentToday (message_entry_state s (today w)))
                 (FollowUpConfig.MaxPerDay cfg)),
         Some (message_start s (today w)))
      else (None, Some (followups_loop w cfg 0 ps (message_start s (today w)))))"
  by (simp add: SendFollowUps_def message_start_def Let_def)

subsection \<open>The example inputs\<close>

lemmas step_defs = sendConnectionRequest_def isProfileAvailable_def profileSelectors_def
  findConnectButton_def connectSelectors_def unavailableReasons_def text_has_connect_def
  label_has_connect_def ToLower_def lower_char_def hasNoteModal_def modalSelectors_def wrap_def
  connect_not_found_def

lemmas run_defs = SendRequests_def entry_state_def loadConnectionState_def Load_def
  newConnectionState_def attempt_def saveConnectionState_def Save_def stateKeyConnectionState_def
  limit_reached_def Itoa_def itoa_nat.simps Let_def

lemma connectable_ok: "sendConnectionRequest connectable example_cfg = None"
  by (simp add: step_defs connectable_def connect_button_def name_heading_def)

lemma pending_find:
  "findConnectButton pending = Inl ''connect unavailable: connection request already pending''"
  by (simp add: step_defs pending_def pending_button_def name_heading_def)

lemma pending_loaded: "Navigate pending = None" "WaitLoad pending = None" "isProfileAvailable pending"
  by (simp_all add: isProfileAvailable_def profileSelectors_def pending_def)

lemma pending_step:
  "sendConnectionRequest pending example_cfg =
     Some ''find connect button: connect unavailable: connection request already pending''"
  by (simp add: sendConnectionRequest_def pending_find pending_loaded wrap_def)

lemma pending_none: "try_connect_selectors pending connectSelectors = None"
  by (simp add: connectSelectors_def pending_def)

lemma pending_reason:
  "check_unavailable pending unavailableReasons = Some ''connection request already pending''"
  by (simp add: unavailableReasons_def pending_def)

lemma example_world_simps [simp]:
  "today example_world = ''2025-01-15''"
  "now example_world i = ''2025-01-15T10:00:00Z''"
  by (simp_all add: example_world_def)

lemma example_cfg_simps [simp]: "RequestConfig.MaxPerDay example_cfg = 2"
  by (simp add: example_cfg_def)

lemma example_step [simp]:
  "sendConnectionRequest (web example_world u) example_cfg =
     (if u = ''P'' then Some ''find connect button: connect unavailable: connection request already pending'' else None)"
  by (simp add: connectable_ok pending_step example_world_def)

lemma start_exhausted: "state (start exhausted_store ''2025-01-15'') = exhausted_state"
  by (simp add: start_def entry_state_def loadConnectionState_def Load_def
      stateKeyConnectionState_def exhausted_store_def exhausted_state_def)

lemma exhausted_invariant: "succeeded_attempted exhausted_state"
  by (simp add: succeeded_attempted_def attempted_def exhausted_state_def)

lemma empty_entry:
  "RequestsSentToday (entry_state empty_store d) = 0"
  "MessagesSentToday (message_entry_state empty_store d) = 0"
  by (simp_all add: entry_state_def loadConnectionState_def Load_def newConnectionState_def
      message_entry_state_def loadMessageState_def newMessageState_def empty_store_def)

lemma first_run:
  "SendRequests example_world [''A'', ''B'', ''C''] empty_store example_cfg =
     (None, Some \<lparr>state = after_two, store = after_two_store, successCount = 2,
                  skipCount = 0, errorCount = 0, invoked = [''A'', ''B'']\<rparr>)"
  by (simp add: run_defs empty_store_def after_two_def after_two_store_def)

subsection \<open>The claims\<close>

text \<open>
  C6. Invariant of the loop, from any state: every profile in \<open>SuccessfulSends\<close> is in the
  attempted set, before and after; the profiles handed to \<open>sendConnectionRequest\<close> are
  pairwise distinct, none of them was attempted before, and they are exactly what the
  attempted set gains; the \<open>SuccessfulSends\<close> entry of a profile already attempted is never
  written again.
\<close>

theorem succeeded_within_attempted:
  assumes "succeeded_attempted (state r)"
  shows "succeeded_attempted (state (requests_loop w cfg i ps r)) \<and>
         (\<exists>calls. invoked (requests_loop w cfg i ps r) = invoked r @ calls \<and>
            distinct calls \<and> set calls \<inter> attempted (state r) = {} \<and>
            attempted (state (requests_loop w cfg i ps r)) = attempted (state r) \<union> set calls) \<and>
         (\<forall>p\<in>attempted (state r).
            SuccessfulSends (state (requests_loop w cfg i ps r)) p = SuccessfulSends (state r) p)"
  using loop_invariant [OF assms] loop_calls [of w cfg i ps r] loop_succeeded_kept [of _ r w cfg i ps]
  by blast

theorem succeeded_within_attempted_witness:
  "succeeded_attempted exhausted_state \<and>
   succeeded_attempted (state (requests_loop example_world (example_cfg\<lparr>MaxPerDay := 5\<rparr>) 0
      [''X'', ''A'', ''A''] (start exhausted_store ''2025-01-15''))) \<and>
   SuccessfulSends (state (requests_loop example_world (example_cfg\<lparr>MaxPerDay := 5\<rparr>) 0
      [''X'', ''A'', ''A''] (start exhausted_store ''2025-01-15''))) ''X'' =
     Some ''2025-01-15T09:00:00Z''"
proof -
  have h: "succeeded_attempted (state (start exhausted_store ''2025-01-15''))"
    by (simp add: start_exhausted exhausted_invariant)
  have x: "''X'' \<in> attempted (state (start exhausted_store ''2025-01-15''))"
    by (simp add: start_exhausted attempted_def exhausted_state_def)
  from succeeded_within_attempted [OF h, of example_world "example_cfg\<lparr>MaxPerDay := 5\<rparr>" 0
      "[''X'', ''A'', ''A'']"] x
  have "succeeded_attempted (state (requests_loop example_world (example_cfg\<lparr>MaxPerDay := 5\<rparr>) 0
          [''X'', ''A'', ''A''] (start exhausted_store ''2025-01-15''))) \<and>
        SuccessfulSends (state (requests_loop example_world (example_cfg\<lparr>MaxPerDay := 5\<rparr>) 0
          [''X'', ''A'', ''A''] (start exhausted_store ''2025-01-15''))) ''X'' =
        SuccessfulSends (state (start exhausted_store ''2025-01-15'')) ''X''"
    by blast
  then show ?thesis
    by (simp add: start_exhausted exhausted_invariant) (simp add: exhausted_state_def)
qed

text \<open>
  C1. Quota boundary: with a daily quota of \<open>N\<close>, a count of 0 for today on entry, and at
  least \<open>N\<close> distinct profiles not attempted before whose requests all succeed, exactly the
  first \<open>N\<close> profiles are handed to \<open>sendConnectionRequest\<close> and succeed, the count ends
  at \<open>N\<close>, and every later profile is neither requested nor marked attempted.
\<close>

theorem quota_boundary:
  assumes zero: "RequestsSentToday (entry_state s0 (today w)) = 0"
    and quota: "MaxPerDay cfg = int N"
    and enough: "N \<le> length ps" and ne: "ps \<noteq> []"
    and dist: "distinct ps"
    and fresh: "\<forall>p\<in>set ps. AttemptedProfiles (entry_state s0 (today w)) p \<noteq> Some True"
    and ok: "\<forall>p\<in>set ps. sendConnectionRequest (web w p) cfg = None"
  shows "\<exists>e r. SendRequests w ps s0 cfg = (e, Some r) \<and>
           e = (if N = 0 then Some (limit_reached 0 0) else None) \<and>
           successCount r = N \<and> errorCount r = 0 \<and>
           RequestsSentToday (state r) = int N \<and>
           invoked r = take N ps \<and>
           dom (SuccessfulSends (state r)) =
             dom (SuccessfulSends (entry_state s0 (today w))) \<union> set (take N ps) \<and>
           (\<forall>p\<in>set (drop N ps).
              p \<notin> set (invoked r) \<and>
              AttemptedProfiles (state r) p = AttemptedProfiles (entry_state s0 (today w)) p)"
proof (cases "N = 0")
  case True
  then show ?thesis using zero quota ne by (simp add: SendRequests_start start_def)
next
  case False
  let ?a = "start s0 (today w)"
  let ?b = "requests_loop w cfg 0 ps ?a"
  have run: "SendRequests w ps s0 cfg = (None, Some ?b)"
    using False zero quota ne by (simp add: SendRequests_start)
  have fresh0: "\<forall>p\<in>set ps. AttemptedProfiles (state ?a) p \<noteq> Some True"
    using fresh by (simp add: start_def)
  have k: "nat (MaxPerDay cfg - RequestsSentToday (state ?a)) = N"
    using zero quota by (simp add: start_def)
  note L = loop_all_succeed [OF ok dist fresh0, of 0, unfolded k]
  have inv: "invoked ?b = take N ps" using L by (simp add: start_def)
  have rest: "\<forall>p\<in>set (drop N ps).
      p \<notin> set (invoked ?b) \<and> AttemptedProfiles (state ?b) p = AttemptedProfiles (entry_state s0 (today w)) p"
  proof
    fix p assume p: "p \<in> set (drop N ps)"
    have "set (take N ps) \<inter> set (drop N ps) = {}"
      using dist by (metis append_take_drop_id distinct_append)
    with p have notin: "p \<notin> set (take N ps)" by blast
    have "AttemptedProfiles (state ?b) p = AttemptedProfiles (state ?a) p"
    proof -
      from loop_calls_map [of w cfg 0 ps ?a] obtain calls where
        c: "invoked ?b = invoked ?a @ calls"
           "\<forall>q. q \<notin> set calls \<longrightarrow>
              AttemptedProfiles (state ?b) q = AttemptedProfiles (state ?a) q"
        by blast
      have "calls = take N ps" using c(1) inv by (simp add: start_def)
      with c(2) notin show ?thesis by simp
    qed
    with notin inv show "p \<notin> set (invoked ?b) \<and>
        AttemptedProfiles (state ?b) p = AttemptedProfiles (entry_state s0 (today w)) p"
      by (simp add: start_def)
  qed
  have "successCount ?b = N" "errorCount ?b = 0" "RequestsSentToday (state ?b) = int N"
    "dom (SuccessfulSends (state ?b)) = dom (SuccessfulSends (entry_state s0 (today w))) \<union> set (take N ps)"
    using L enough zero by (simp_all add: start_def min_def)
  with run False inv rest show ?thesis by simp
qed

theorem quota_boundary_witness:
  "\<exists>e r. SendRequests example_world [''A'', ''B'', ''C''] empty_store example_cfg = (e, Some r) \<and>
      e = None \<and> successCount r = 2 \<and> errorCount r = 0 \<and> RequestsSentToday (state r) = 2 \<and>
      invoked r = [''A'', ''B''] \<and> dom (SuccessfulSends (state r)) = {''A'', ''B''} \<and>
      AttemptedProfiles (state r) ''C'' = None"
  using quota_boundary [of empty_store example_world example_cfg 2 "[''A'', ''B'', ''C'']"]
  by (simp add: entry_state_def loadConnectionState_def Load_def newConnectionState_def
      empty_store_def Let_def insert_commute) blast

text \<open>
  C2. The claim: a profile whose Connect control is replaced by an "unavailable" indicator
  is recorded as skipped-ineligible and not into the failed map. On the \<open>pending\<close> page
  \<open>findConnectButton\<close> returns its "connect unavailable" error, and \<open>SendRequests\<close> records
  it in \<open>FailedAttempts\<close> and counts an error.
\<close>

theorem unavailable_counterexample:
  "findConnectButton pending = Inl ''connect unavailable: connection request already pending'' \<and>
   (\<exists>r. SendRequests example_world [''P''] empty_store example_cfg = (None, Some r) \<and>
        FailedAttempts (state r) ''P'' =
          Some ''find connect button: connect unavailable: connection request already pending'' \<and>
        errorCount r = 1)"
  by (simp add: pending_find) (simp add: run_defs empty_store_def)

text \<open>
  C2, as the code has it: when no selector yields a validated Connect button and an
  indicator is present, \<open>findConnectButton\<close> returns "connect unavailable: reason", which
  differs from the not-found error; the loop treats it as any other error of the request:
  the profile is marked attempted and the error is stored in \<open>FailedAttempts\<close>, with the
  error counter incremented and the daily count unchanged.
\<close>

theorem unavailable_is_recorded_as_failed:
  assumes none: "try_connect_selectors page connectSelectors = None"
    and ind: "check_unavailable page unavailableReasons = Some reason"
    and page: "web w url = page"
    and loaded: "Navigate page = None" "WaitLoad page = None" "isProfileAvailable page"
    and below: "RequestsSentToday (state r) < MaxPerDay cfg"
    and fresh: "AttemptedProfiles (state r) url \<noteq> Some True"
  shows "findConnectButton page = Inl (''connect unavailable: '' @ reason) \<and>
         findConnectButton page \<noteq> Inl connect_not_found \<and>
         FailedAttempts (state (requests_loop w cfg i [url] r)) url =
           Some (''find connect button: connect unavailable: '' @ reason) \<and>
         errorCount (requests_loop w cfg i [url] r) = errorCount r + 1 \<and>
         skipCount (requests_loop w cfg i [url] r) = skipCount r \<and>
         successCount (requests_loop w cfg i [url] r) = successCount r \<and>
         AttemptedProfiles (state (requests_loop w cfg i [url] r)) url = Some True \<and>
         RequestsSentToday (state (requests_loop w cfg i [url] r)) = RequestsSentToday (state r) \<and>
         SuccessfulSends (state (requests_loop w cfg i [url] r)) = SuccessfulSends (state r) \<and>
         invoked (requests_loop w cfg i [url] r) = invoked r @ [url]"
proof -
  have f: "findConnectButton page = Inl (''connect unavailable: '' @ reason)"
    using none ind by (simp add: findConnectButton_def)
  have step: "sendConnectionRequest (web w url) cfg =
      Some (''find connect button: connect unavailable: '' @ reason)"
    using f page loaded by (simp add: sendConnectionRequest_def wrap_def)
  have loop: "requests_loop w cfg i [url] r = attempt w cfg i url r"
    using below fresh by simp
  show ?thesis
    unfolding loop using f step
    by (simp add: connect_not_found_def attempt_FailedAttempts attempt_errorCount
        attempt_successCount attempt_RequestsSentToday attempt_SuccessfulSends)
qed

theorem unavailable_is_recorded_as_failed_witness:
  "findConnectButton pending = Inl ''connect unavailable: connection request already pending'' \<and>
   FailedAttempts (state (requests_loop example_world example_cfg 0 [''P''] (start empty_store ''2025-01-15''))) ''P'' =
     Some ''find connect button: connect unavailable: connection request already pending'' \<and>
   errorCount (requests_loop example_world example_cfg 0 [''P''] (start empty_store ''2025-01-15'')) = 1"
  using unavailable_is_recorded_as_failed [of pending "''connection request already pending''"
      example_world "''P''" "start empty_store ''2025-01-15''" example_cfg 0]
  by (simp add: pending_none pending_reason pending_loaded example_world_def start_def
      entry_state_def loadConnectionState_def Load_def newConnectionState_def empty_store_def)

text \<open>
  C3. The claim: a quota already used up on entry is a normal return without an error.
  With two requests sent today and a quota of two, \<open>SendRequests\<close> returns an error.
\<close>

theorem limit_at_entry_counterexample:
  "fst (SendRequests example_world [''A''] exhausted_store example_cfg) =
     Some ''daily connection limit reached: 2/2''"
  by (simp add: run_defs exhausted_store_def exhausted_state_def)

text \<open>
  C3, as the code has it: with profiles to process and the count at or above the quota
  after loading and rolling the day over, \<open>SendRequests\<close> and \<open>SendFollowUps\<close> return the
  error "daily ... limit reached: count/quota"; no profile is attempted, nothing is saved
  and the state is the one loaded. Below the quota on entry the returned error is nil,
  also when the quota is reached during the run.
\<close>

theorem limit_at_entry_returns_error:
  assumes "ps \<noteq> []"
  shows "(MaxPerDay cfg \<le> RequestsSentToday (entry_state s (today w)) \<longrightarrow>
            SendRequests w ps s cfg =
              (Some (limit_reached (RequestsSentToday (entry_state s (today w))) (MaxPerDay cfg)),
               Some \<lparr>state = entry_state s (today w), store = s, successCount = 0,
                     skipCount = 0, errorCount = 0, invoked = []\<rparr>)) \<and>
         (RequestsSentToday (entry_state s (today w)) < MaxPerDay cfg \<longrightarrow>
            fst (SendRequests w ps s cfg) = None) \<and>
         (FollowUpConfig.MaxPerDay mcfg \<le> MessagesSentToday (message_entry_state m (today w)) \<longrightarrow>
            SendFollowUps w ps m mcfg =
              (Some (message_limit_reached (MessagesSentToday (message_entry_state m (today w)))
                       (FollowUpConfig.MaxPerDay mcfg)),
               Some \<lparr>FollowUpRun.state = message_entry_state m (today w), store = m,
                     successCount = 0, skipCount = 0, notConnectedCount = 0, errorCount = 0,
                     invoked = []\<rparr>)) \<and>
         (MessagesSentToday (message_entry_state m (today w)) < FollowUpConfig.MaxPerDay mcfg \<longrightarrow>
            fst (SendFollowUps w ps m mcfg) = None)"
  using assms by (simp add: SendRequests_def SendFollowUps_def Let_def)

theorem limit_at_entry_returns_error_witness:
  "SendRequests example_world [''A''] exhausted_store example_cfg =
     (Some ''daily connection limit reached: 2/2'',
      Some \<lparr>state = exhausted_state, store = exhausted_store, successCount = 0,
            skipCount = 0, errorCount = 0, invoked = []\<rparr>) \<and>
   fst (SendRequests example_world [''A''] empty_store example_cfg) = None \<and>
   fst (SendFollowUps example_world [''A''] exhausted_messages example_mcfg) =
     Some ''daily message limit reached: 2/2'' \<and>
   fst (SendFollowUps example_world [''A''] empty_store example_mcfg) = None"
  using limit_at_entry_returns_error [of "[''A'']" example_cfg exhausted_store example_world
      example_mcfg exhausted_messages]
    limit_at_entry_returns_error [of "[''A'']" example_cfg empty_store example_world
      example_mcfg empty_store]
  by (simp add: entry_state_def loadConnectionState_def Load_def newConnectionState_def
      message_entry_state_def loadMessageState_def newMessageState_def
      stateKeyConnectionState_def stateKeyMessageState_def wrap_def
      empty_store_def exhausted_store_def exhausted_state_def exhausted_messages_def
      example_mcfg_def limit_reached_def message_limit_reached_def Itoa_def itoa_nat.simps)

text \<open>
  C4. The claim: when saving the state fails, the run is aborted and the error returned.
  With a store that cannot be written, \<open>SendRequests\<close> goes on to the second profile and
  returns nil.
\<close>

theorem save_failure_counterexample:
  "\<exists>r. SendRequests example_world [''A'', ''B''] (empty_store\<lparr>save_fault := Some ''disk full''\<rparr>) example_cfg
          = (None, Some r) \<and> invoked r = [''A'', ''B''] \<and> successCount r = 2"
  by (simp add: run_defs empty_store_def)

text \<open>
  C4, as the code has it: a failing save is only logged. With a store that cannot be
  written, \<open>SendRequests\<close> and \<open>SendFollowUps\<close> return the same error, process the same
  profiles and end with the same state and counters as with a store that can; the error
  returned is nil unless the daily limit was reached on entry.
\<close>

theorem save_failure_is_only_logged:
  "fst (SendRequests w ps (s\<lparr>save_fault := Some e\<rparr>) cfg) = fst (SendRequests w ps (s\<lparr>save_fault := None\<rparr>) cfg) \<and>
   fst (SendRequests w ps (s\<lparr>save_fault := Some e\<rparr>) cfg) =
     (if ps \<noteq> [] \<and> RequestsSentToday (entry_state s (today w)) \<ge> MaxPerDay cfg
      then Some (limit_reached (RequestsSentToday (entry_state s (today w))) (MaxPerDay cfg)) else None) \<and>
   map_option progress (snd (SendRequests w ps (s\<lparr>save_fault := Some e\<rparr>) cfg)) =
     map_option progress (snd (SendRequests w ps (s\<lparr>save_fault := None\<rparr>) cfg)) \<and>
   fst (SendFollowUps w ps (m\<lparr>save_fault := Some e\<rparr>) mcfg) = fst (SendFollowUps w ps (m\<lparr>save_fault := None\<rparr>) mcfg) \<and>
   fst (SendFollowUps w ps (m\<lparr>save_fault := Some e\<rparr>) mcfg) =
     (if ps \<noteq> [] \<and> MessagesSentToday (message_entry_state m (today w)) \<ge> FollowUpConfig.MaxPerDay mcfg
      then Some (message_limit_reached (MessagesSentToday (message_entry_state m (today w)))
                   (FollowUpConfig.MaxPerDay mcfg)) else None) \<and>
   map_option message_progress (snd (SendFollowUps w ps (m\<lparr>save_fault := Some e\<rparr>) mcfg)) =
     map_option message_progress (snd (SendFollowUps w ps (m\<lparr>save_fault := None\<rparr>) mcfg))"
proof -
  have p: "progress (start (s\<lparr>save_fault := Some e\<rparr>) (today w)) = progress (start (s\<lparr>save_fault := None\<rparr>) (today w))"
    by (simp add: progress_def start_def)
  have mp: "message_progress (message_start (m\<lparr>save_fault := Some e\<rparr>) (today w)) =
            message_progress (message_start (m\<lparr>save_fault := None\<rparr>) (today w))"
    by (simp add: message_progress_def message_start_def)
  have c: "fst (SendRequests w ps (s\<lparr>save_fault := Some e\<rparr>) cfg) = fst (SendRequests w ps (s\<lparr>save_fault := None\<rparr>) cfg)"
    by (simp add: SendRequests_start)
  moreover have "fst (SendRequests w ps (s\<lparr>save_fault := Some e\<rparr>) cfg) =
     (if ps \<noteq> [] \<and> RequestsSentToday (entry_state s (today w)) \<ge> MaxPerDay cfg
      then Some (limit_reached (RequestsSentToday (entry_state s (today w))) (MaxPerDay cfg)) else None)"
    by (simp add: SendRequests_start)
  moreover have "map_option progress (snd (SendRequests w ps (s\<lparr>save_fault := Some e\<rparr>) cfg)) =
     map_option progress (snd (SendRequests w ps (s\<lparr>save_fault := None\<rparr>) cfg))"
    using p loop_progress [OF p] by (simp add: SendRequests_start)
  moreover have "fst (SendFollowUps w ps (m\<lparr>save_fault := Some e\<rparr>) mcfg) = fst (SendFollowUps w ps (m\<lparr>save_fault := None\<rparr>) mcfg)"
    by (simp add: SendFollowUps_start)
  moreover have "fst (SendFollowUps w ps (m\<lparr>save_fault := Some e\<rparr>) mcfg) =
     (if ps \<noteq> [] \<and> MessagesSentToday (message_entry_state m (today w)) \<ge> FollowUpConfig.MaxPerDay mcfg
      then Some (message_limit_reached (MessagesSentToday (message_entry_state m (today w)))
                   (FollowUpConfig.MaxPerDay mcfg)) else None)"
    by (simp add: SendFollowUps_start)
  moreover have "map_option message_progress (snd (SendFollowUps w ps (m\<lparr>save_fault := Some e\<rparr>) mcfg)) =
     map_option message_progress (snd (SendFollowUps w ps (m\<lparr>save_fault := None\<rparr>) mcfg))"
    using mp followups_progress [OF mp] by (simp add: SendFollowUps_start)
  ultimately show ?thesis by blast
qed

text \<open>
  Both workflows on a store whose saves fail with "disk full" and truncate what is stored:
  every profile is processed and saved after, and the runs end as with a working store.
\<close>

lemma truncating_entry:
  "RequestsSentToday (entry_state truncating_store d) = 0"
  "MessagesSentToday (message_entry_state truncating_store d) = 0"
  by (simp_all add: entry_state_def loadConnectionState_def Load_def newConnectionState_def
      message_entry_state_def loadMessageState_def newMessageState_def truncating_store_def)

lemma message_world_simps [simp]:
  "today message_world = ''2025-01-15''"
  "now message_world i = ''2025-01-15T10:00:00Z''"
  "checkIfConnected (web message_world u) = Inr True"
  "FollowUp (web message_world u) = None"
  by (simp_all add: message_world_def connected_def checkIfConnected_def
      messageButtonSelectors_def is_message_button_def message_button_def ToLower_def
      lower_char_def)

lemma example_mcfg_simps [simp]:
  "FollowUpConfig.MaxPerDay example_mcfg = 2"
  "MessageTemplate example_mcfg = ''Hi {{name}}''"
  by (simp_all add: example_mcfg_def)

lemma working_requests:
  "map_option progress (snd (SendRequests example_world [''A'', ''B'']
       (truncating_store\<lparr>save_fault := None\<rparr>) example_cfg)) =
     Some (after_two, 2, 0, 0, [''A'', ''B''])"
  by (simp add: run_defs progress_def truncating_store_def after_two_def)

lemma working_followups:
  "map_option message_progress (snd (SendFollowUps message_world [''A'', ''B'']
       (truncating_store\<lparr>save_fault := None\<rparr>) example_mcfg)) =
     Some (after_two_messages, 2, 0, 0, 0, [''A'', ''B''])"
  by (simp add: SendFollowUps_def message_entry_state_def loadMessageState_def Load_def
      newMessageState_def message_def saveMessageState_def Save_def stateKeyMessageState_def
      wrap_def Let_def message_progress_def truncating_store_def after_two_messages_def)

theorem save_failure_is_only_logged_witness:
  "fst (SendRequests example_world [''A'', ''B'']
          (truncating_store\<lparr>save_fault := Some ''disk full''\<rparr>) example_cfg) = None \<and>
   map_option progress (snd (SendRequests example_world [''A'', ''B'']
          (truncating_store\<lparr>save_fault := Some ''disk full''\<rparr>) example_cfg)) =
     Some (after_two, 2, 0, 0, [''A'', ''B'']) \<and>
   fst (SendFollowUps message_world [''A'', ''B'']
          (truncating_store\<lparr>save_fault := Some ''disk full''\<rparr>) example_mcfg) = None \<and>
   map_option message_progress (snd (SendFollowUps message_world [''A'', ''B'']
          (truncating_store\<lparr>save_fault := Some ''disk full''\<rparr>) example_mcfg)) =
     Some (after_two_messages, 2, 0, 0, 0, [''A'', ''B''])"
proof -
  note t = save_failure_is_only_logged [where w = example_world and ps = "[''A'', ''B'']"
      and s = truncating_store and e = "''disk full''" and cfg = example_cfg]
  note u = save_failure_is_only_logged [where w = message_world and ps = "[''A'', ''B'']"
      and m = truncating_store and e = "''disk full''" and mcfg = example_mcfg]
  from t have "fst (SendRequests example_world [''A'', ''B'']
          (truncating_store\<lparr>save_fault := Some ''disk full''\<rparr>) example_cfg) =
     (if [''A'', ''B''] \<noteq> [] \<and> RequestsSentToday (entry_state truncating_store (today example_world)) \<ge> MaxPerDay example_cfg
      then Some (limit_reached (RequestsSentToday (entry_state truncating_store (today example_world))) (MaxPerDay example_cfg)) else None)"
    by blast
  then have a: "fst (SendRequests example_world [''A'', ''B'']
          (truncating_store\<lparr>save_fault := Some ''disk full''\<rparr>) example_cfg) = None"
    by (simp add: truncating_entry)
  from t have "map_option progress (snd (SendRequests example_world [''A'', ''B'']
          (truncating_store\<lparr>save_fault := Some ''disk full''\<rparr>) example_cfg)) =
     map_option progress (snd (SendRequests example_world [''A'', ''B'']
          (truncating_store\<lparr>save_fault := None\<rparr>) example_cfg))"
    by blast
  then have b: "map_option progress (snd (SendRequests example_world [''A'', ''B'']
          (truncating_store\<lparr>save_fault := Some ''disk full''\<rparr>) example_cfg)) =
     Some (after_two, 2, 0, 0, [''A'', ''B''])"
    by (simp only: working_requests)
  from u have "fst (SendFollowUps message_world [''A'', ''B'']
          (truncating_store\<lparr>save_fault := Some ''disk full''\<rparr>) example_mcfg) =
     (if [''A'', ''B''] \<noteq> [] \<and> MessagesSentToday (message_entry_state truncating_store (today message_world)) \<ge> FollowUpConfig.MaxPerDay example_mcfg
      then Some (message_limit_reached (MessagesSentToday (message_entry_state truncating_store (today message_world)))
                   (FollowUpConfig.MaxPerDay example_mcfg)) else None)"
    by blast
  then have c: "fst (SendFollowUps message_world [''A'', ''B'']
          (truncating_store\<lparr>save_fault := Some ''disk full''\<rparr>) example_mcfg) = None"
    by (simp add: truncating_entry)
  from u have "map_option message_progress (snd (SendFollowUps message_world [''A'', ''B'']
          (truncating_store\<lparr>save_fault := Some ''disk full''\<rparr>) example_mcfg)) =
     map_option message_progress (snd (SendFollowUps message_world [''A'', ''B'']
          (truncating_store\<lparr>save_fault := None\<rparr>) example_mcfg))"
    by blast
  then have d: "map_option message_progress (snd (SendFollowUps message_world [''A'', ''B'']
          (truncating_store\<lparr>save_fault := Some ''disk full''\<rparr>) example_mcfg)) =
     Some (after_two_messages, 2, 0, 0, 0, [''A'', ''B''])"
    by (simp only: working_followups)
  from a b c d show ?thesis by blast
qed

text \<open>
  C5. The claim: on a replay every profile of the list is skipped as already attempted.
  After a run over \<open>A\<close>, \<open>B\<close>, \<open>C\<close> with a quota of two, the replay stops at the quota check
  on entry with an error: no profile is skipped, and \<open>C\<close> is not in the attempted set.
\<close>

theorem replay_counterexample:
  "SendRequests example_world [''A'', ''B'', ''C''] empty_store example_cfg =
     (None, Some \<lparr>state = after_two, store = after_two_store, successCount = 2,
                  skipCount = 0, errorCount = 0, invoked = [''A'', ''B'']\<rparr>) \<and>
   (\<exists>e r2. SendRequests example_world [''A'', ''B'', ''C''] after_two_store example_cfg =
             (Some e, Some r2) \<and>
           skipCount r2 = 0 \<and> AttemptedProfiles (state r2) ''C'' = None)"
  by (simp add: first_run) (simp add: run_defs after_two_store_def after_two_def)

text \<open>
  C5, as the code has it: replaying \<open>SendRequests\<close> on the same day with the same list,
  against the store the first run left (a store that can be read and written), hands no
  profile to \<open>sendConnectionRequest\<close> and leaves the state and the store as they were. If
  the first run ended below the quota, every profile is skipped as already attempted and
  the replay returns nil; otherwise it stops at the quota check on entry with the
  limit-reached error, skipping nothing.
\<close>

theorem replay_changes_nothing:
  assumes lf: "load_fault s0 = None" and sf: "save_fault s0 = None"
    and run: "SendRequests w ps s0 cfg = (e1, Some r1)"
    and day: "today w' = today w"
  shows "\<exists>e2 r2. SendRequests w' ps (store r1) cfg = (e2, Some r2) \<and>
           invoked r2 = [] \<and> successCount r2 = 0 \<and> errorCount r2 = 0 \<and>
           state r2 = state r1 \<and> store r2 = store r1 \<and>
           (if RequestsSentToday (state r1) < MaxPerDay cfg
            then e2 = None \<and> skipCount r2 = length ps
            else e2 = Some (limit_reached (RequestsSentToday (state r1)) (MaxPerDay cfg)) \<and>
                 skipCount r2 = 0)"
proof -
  from run have ne: "ps \<noteq> []" by (auto simp: SendRequests_start split: if_splits)
  note e = replay_entry [OF lf sf run]
  show ?thesis
  proof (cases "RequestsSentToday (state r1) < MaxPerDay cfg")
    case True
    with e have all: "set ps \<subseteq> attempted (state (start (store r1) (today w)))"
      by (simp add: start_def)
    have below: "RequestsSentToday (state (start (store r1) (today w))) < MaxPerDay cfg"
      using True e by (simp add: start_def)
    show ?thesis
      using ne True e day loop_all_skipped [OF all below, of w' 0]
      by (simp add: SendRequests_start start_def)
  next
    case False
    then show ?thesis using ne e day by (simp add: SendRequests_start start_def)
  qed
qed

theorem replay_changes_nothing_witness:
  "\<exists>r2. SendRequests example_world [''A'', ''B'', ''C''] after_two_store example_cfg =
          (Some ''daily connection limit reached: 2/2'', Some r2) \<and>
        invoked r2 = [] \<and> successCount r2 = 0 \<and> skipCount r2 = 0 \<and>
        state r2 = after_two \<and> store r2 = after_two_store"
  using replay_changes_nothing [where ?s0.0 = empty_store and w = example_world
      and ps = "[''A'', ''B'', ''C'']" and cfg = example_cfg and w' = example_world,
      OF _ _ first_run]
  by (simp add: empty_store_def) (auto simp: after_two_def limit_reached_def Itoa_def itoa_nat.simps)

section \<open>Properties of the people search\<close>

lemma pages_loop_done: "\<not> currentPage s \<le> M \<Longrightarrow> pages_loop w M s = s"
  by (subst pages_loop.simps) simp

lemma pages_loop_continue:
  "currentPage s \<le> M \<Longrightarrow> continues w (currentPage s) \<Longrightarrow>
     pages_loop w M s = pages_loop w M (next_state w s)"
  by (subst pages_loop.simps)
     (auto simp: continues_def next_state_def Let_def split: sum.splits)

lemma pages_loop_stop:
  "currentPage s \<le> M \<Longrightarrow> \<not> continues w (currentPage s) \<Longrightarrow>
     processed (pages_loop w M s) = processed s @ [currentPage s]"
  by (subst pages_loop.simps)
     (auto simp: continues_def page_done_def Let_def hasNextPage_def split: sum.splits option.splits)

lemma next_state_simps:
  "continues w (currentPage s) \<Longrightarrow> currentPage (next_state w s) = currentPage s + 1"
  "continues w (currentPage s) \<Longrightarrow> processed (next_state w s) = processed s @ [currentPage s]"
  by (auto simp: continues_def next_state_def page_done_def split: sum.splits)

lemma processed_bound:
  "length (processed (pages_loop w M s)) \<le> length (processed s) + nat (M + 1 - currentPage s)"
proof (induction "nat (M + 1 - currentPage s)" arbitrary: s)
  case 0
  then show ?case by (simp add: pages_loop_done)
next
  case (Suc n)
  then have le: "currentPage s \<le> M" by linarith
  show ?case
  proof (cases "continues w (currentPage s)")
    case True
    have "n = nat (M + 1 - currentPage (next_state w s))"
      using Suc.hyps(2) True by (simp add: next_state_simps)
    from Suc.hyps(1) [OF this] show ?thesis
      using le True Suc.hyps(2) by (simp add: pages_loop_continue next_state_simps)
  next
    case False
    then show ?thesis using le Suc.hyps(2) by (simp add: pages_loop_stop)
  qed
qed

lemma processed_grows:
  "set (processed s) \<subseteq> set (processed (pages_loop w M s))"
proof (induction "nat (M + 1 - currentPage s)" arbitrary: s)
  case 0
  then show ?case by (simp add: pages_loop_done)
next
  case (Suc n)
  then have le: "currentPage s \<le> M" by linarith
  show ?case
  proof (cases "continues w (currentPage s)")
    case True
    have "n = nat (M + 1 - currentPage (next_state w s))"
      using Suc.hyps(2) True by (simp add: next_state_simps)
    from Suc.hyps(1) [OF this] show ?thesis
      using le True by (simp add: pages_loop_continue next_state_simps)
  next
    case False
    then show ?thesis using le by (auto simp: pages_loop_stop)
  qed
qed

lemma current_processed:
  assumes "currentPage s \<le> M"
  shows "currentPage s \<in> set (processed (pages_loop w M s))"
proof (cases "continues w (currentPage s)")
  case True
  have "currentPage s \<in> set (processed (next_state w s))" using True by (simp add: next_state_simps)
  then show ?thesis
    using processed_grows [of "next_state w s" w M] assms True by (auto simp: pages_loop_continue)
next
  case False
  then show ?thesis using assms by (simp add: pages_loop_stop)
qed

lemma next_page_iff:
  assumes "\<forall>j\<in>set (processed s). j < currentPage s" and "currentPage s \<le> k"
  shows "(k + 1 \<in> set (processed (pages_loop w M s))) =
         (k \<in> set (processed (pages_loop w M s)) \<and> k < M \<and> continues w k)"
  using assms
proof (induction "nat (M + 1 - currentPage s)" arbitrary: s)
  case 0
  then have "\<not> currentPage s \<le> M" by linarith
  then show ?case using "0.prems" by (auto simp: pages_loop_done)
next
  case (Suc n)
  then have le: "currentPage s \<le> M" by linarith
  show ?case
  proof (cases "continues w (currentPage s)")
    case False
    then show ?thesis using le Suc.prems by (auto simp: pages_loop_stop)
  next
    case True
    let ?s = "next_state w s"
    have n: "n = nat (M + 1 - currentPage ?s)"
      using Suc.hyps(2) True by (simp add: next_state_simps)
    have old: "\<forall>j\<in>set (processed ?s). j < currentPage ?s"
      using Suc.prems(1) True by (auto simp: next_state_simps)
    have eq: "pages_loop w M s = pages_loop w M ?s" using le True by (rule pages_loop_continue)
    show ?thesis
    proof (cases "k = currentPage s")
      case False
      then have "currentPage ?s \<le> k" using Suc.prems(2) True by (simp add: next_state_simps)
      from Suc.hyps(1) [OF n old this] show ?thesis unfolding eq .
    next
      case k: True
      have mem: "k \<in> set (processed (pages_loop w M ?s))"
        using processed_grows [of ?s w M] True k by (auto simp: next_state_simps)
      show ?thesis
      proof (cases "k < M")
        case True
        then have "currentPage ?s \<le> M" using k \<open>continues w (currentPage s)\<close> by (simp add: next_state_simps)
        from current_processed [OF this, of w] have "k + 1 \<in> set (processed (pages_loop w M ?s))"
          using k \<open>continues w (currentPage s)\<close> by (simp add: next_state_simps)
        then show ?thesis unfolding eq using mem True k \<open>continues w (currentPage s)\<close> by simp
      next
        case False
        then have "\<not> currentPage ?s \<le> M" using k \<open>continues w (currentPage s)\<close> by (simp add: next_state_simps)
        then have "pages_loop w M ?s = ?s" by (rule pages_loop_done)
        then show ?thesis unfolding eq using False k \<open>continues w (currentPage s)\<close> Suc.prems(1)
          by (auto simp: next_state_simps)
      qed
    qed
  qed
qed

lemma FindPeople_processed:
  "processed (fst (FindPeople w st params)) =
     (case OpenSearch w of
        Some e \<Rightarrow> []
      | None \<Rightarrow>
          processed (pages_loop w (if MaxPages params = 0 then 10 else MaxPages params)
            \<lparr>seenProfiles = (case loadSeenProfiles st of Inl e \<Rightarrow> Map.empty | Inr seen \<Rightarrow> seen),
             allProfiles = [], currentPage = 1, processed = [], newCounts = [], failure = None\<rparr>))"
  by (simp add: FindPeople_def Let_def split: option.splits)

subsection \<open>The example inputs\<close>

lemma page_with_next_simps [simp]:
  "Extracted (page_with_next urls) = Inr urls"
  "hasNextPage (page_with_next urls) = Inr True"
  "clickNextPage (page_with_next urls) = None"
  by (simp_all add: page_with_next_def hasNextPage_def clickNextPage_def nextButtonSelectors_def
      clickSelectors_def is_disabled_def next_button_def)

lemma last_page_simps [simp]:
  "Extracted (last_page urls) = Inr urls"
  "hasNextPage (last_page urls) = Inr False"
  by (simp_all add: last_page_def hasNextPage_def nextButtonSelectors_def)

lemma search_world_simps [simp]:
  "OpenSearch search_world = None"
  "results search_world 1 = page_with_next [''https://www.linkedin.com/in/ada'']"
  "results search_world 2 = last_page [''https://www.linkedin.com/in/bob'']"
  "normalizeProfileURL search_world = (\<lambda>url. url)"
  by (simp_all add: search_world_def)

lemma endless_world_simps [simp]:
  "OpenSearch endless_world = None"
  "results endless_world k = page_with_next [''https://www.linkedin.com/in/ada'']"
  "normalizeProfileURL endless_world = (\<lambda>url. url)"
  by (simp_all add: endless_world_def)

lemma default_params_simps [simp]: "MaxPages default_params = 0"
  by (simp add: default_params_def)

lemmas find_defs = FindPeople_def loadSeenProfiles_def saveSeenProfiles_def Load_def Save_def
  stateKeySeenProfiles_def pages_loop.simps page_done_def Let_def

lemma endless_continues: "continues endless_world k"
  by (simp add: continues_def)

lemma endless_processed:
  "processed (pages_loop endless_world M s) = processed s @ [currentPage s..M]"
proof (induction "nat (M + 1 - currentPage s)" arbitrary: s)
  case 0
  then show ?case by (simp add: pages_loop_done)
next
  case (Suc n)
  then have le: "currentPage s \<le> M" by linarith
  have "n = nat (M + 1 - currentPage (next_state endless_world s))"
    using Suc.hyps(2) by (simp add: next_state_simps endless_continues)
  from Suc.hyps(1) [OF this] show ?case
    using le by (simp add: pages_loop_continue next_state_simps endless_continues upto_rec1 [of "currentPage s" M])
qed

subsection \<open>The claims\<close>

text \<open>
  C9. The claim: the pagination stops as soon as a page yields no new profile. With the
  only profile of page 1 already seen, the count of new profiles on page 1 is zero, and
  page 2 is processed all the same.
\<close>

theorem zero_new_counterexample:
  "processed (fst (FindPeople search_world seen_store default_params)) = [1, 2] \<and>
   newCounts (fst (FindPeople search_world seen_store default_params)) = [0, 1] \<and>
   returned (fst (FindPeople search_world seen_store default_params)) =
     Inr [''https://www.linkedin.com/in/bob'']"
  by (simp add: find_defs seen_store_def returned_def)

text \<open>
  C9, as the code has it: the count of new profiles is only logged. After a processed
  page \<open>k\<close>, the next page is processed exactly when \<open>k\<close> is below the page maximum,
  extraction on page \<open>k\<close> succeeded, and a next control that is not disabled resolved and
  was clicked, whatever page \<open>k\<close> yielded.
\<close>

theorem pagination_continues_iff:
  assumes "1 \<le> k"
  shows "(k + 1 \<in> set (processed (fst (FindPeople w st params)))) =
         (k \<in> set (processed (fst (FindPeople w st params))) \<and>
          k < (if MaxPages params = 0 then 10 else MaxPages params) \<and> continues w k)"
proof (cases "OpenSearch w")
  case (Some e)
  then show ?thesis by (simp add: FindPeople_processed)
next
  case None
  let ?s = "\<lparr>seenProfiles = (case loadSeenProfiles st of Inl e \<Rightarrow> Map.empty | Inr seen \<Rightarrow> seen),
             allProfiles = [], currentPage = 1, processed = [], newCounts = [], failure = None\<rparr>"
  have a: "\<forall>j\<in>set (processed ?s). j < currentPage ?s" by simp
  have b: "currentPage ?s \<le> k" using assms by simp
  from next_page_iff [OF a b] show ?thesis using None by (simp add: FindPeople_processed)
qed

theorem pagination_continues_iff_witness:
  "2 \<in> set (processed (fst (FindPeople search_world seen_store default_params))) \<and>
   continues search_world 1 \<and> \<not> continues search_world 2 \<and>
   3 \<notin> set (processed (fst (FindPeople search_world seen_store default_params)))"
proof -
  have c1: "continues search_world 1" and c2: "\<not> continues search_world 2"
    by (simp_all add: continues_def)
  have p1: "1 \<in> set (processed (fst (FindPeople search_world seen_store default_params)))"
    by (simp add: find_defs seen_store_def)
  from pagination_continues_iff [of 1 search_world seen_store default_params] c1 p1
  have "2 \<in> set (processed (fst (FindPeople search_world seen_store default_params)))" by simp
  moreover from pagination_continues_iff [of 2 search_world seen_store default_params] c2
  have "3 \<notin> set (processed (fst (FindPeople search_world seen_store default_params)))" by simp
  ultimately show ?thesis using c1 c2 by simp
qed

text \<open>
  C10. With \<open>MaxPages = 0\<close> at most 10 pages are processed: the search behaves exactly as
  with \<open>MaxPages = 10\<close>.
\<close>

theorem zero_max_pages_means_ten:
  assumes "MaxPages params = 0"
  shows "length (processed (fst (FindPeople w st params))) \<le> 10 \<and>
         FindPeople w st params = FindPeople w st (params\<lparr>MaxPages := 10\<rparr>)"
proof -
  have "length (processed (fst (FindPeople w st params))) \<le> 10"
    using processed_bound [of w 10 "\<lparr>seenProfiles = (case loadSeenProfiles st of Inl e \<Rightarrow> Map.empty | Inr seen \<Rightarrow> seen),
             allProfiles = [], currentPage = 1, processed = [], newCounts = [], failure = None\<rparr>"] assms
    by (simp add: FindPeople_processed split: option.splits)
  moreover have "FindPeople w st params = FindPeople w st (params\<lparr>MaxPages := 10\<rparr>)"
    using assms by (simp add: FindPeople_def Let_def cong: option.case_cong)
  ultimately show ?thesis by simp
qed

theorem zero_max_pages_means_ten_witness:
  "MaxPages default_params = 0 \<and>
   processed (fst (FindPeople endless_world empty_store default_params)) =
     [1, 2, 3, 4, 5, 6, 7, 8, 9, 10] \<and>
   length (processed (fst (FindPeople endless_world empty_store default_params))) \<le> 10"
proof -
  have "processed (fst (FindPeople endless_world empty_store default_params)) = [1..10]"
    by (simp add: FindPeople_processed endless_processed)
  also have "[1..10] = [1, 2, 3, 4, 5, 6, 7, 8, 9, 10::int]"
    by (simp add: upto_rec1)
  finally show ?thesis
    using zero_max_pages_means_ten [of default_params endless_world empty_store] by simp
qed

end
